theory Spec2Isabelle
  imports Main "HOL-Library.AList" "HOL-Library.Sublist"
begin

section \<open>The habit-coaching bot: data model\<close>

text \<open>
  The development embeds \<^verbatim>\<open>src/bot.js\<close>: the user table, the command handlers, the
  free-text message router, the minute tick and the weekly job. Three functions of the
  older variant of the same file (\<^verbatim>\<open>src/unnamed/part_001\<close>) are embedded next to
  their successors, with the suffix \<open>_p1\<close>: \<open>updateDailyStats\<close>, \<open>coachReply\<close> and
  the weekly job.

  Conventions of the embedding.
  \<^item> A calendar key \<^verbatim>\<open>YYYY-MM-DD\<close> is the number of its day (an \<open>int\<close>); the key of
    the day \<open>i\<close> days before \<open>d\<close> is \<open>d - i\<close>.
  \<^item> The wall clock is an input of every handler: the record \<open>clock\<close> carries what
    \<^verbatim>\<open>todayDate()\<close>, the local \<^verbatim>\<open>HH:MM\<close> and \<^verbatim>\<open>new Date().toISOString()\<close> return.
  \<^item> A JavaScript object that is mutated in place is passed in and returned.
  \<^item> A missing property of a day object (\<^verbatim>\<open>undefined\<close>) is \<open>None\<close> for an entry and
    \<open>False\<close> for a flag: the code only tests these properties for truthiness.
  \<^item> The counters of \<open>stats\<close> are JavaScript numbers that are only incremented by one or
    set to zero; they are integers here.
  \<^item> Outbound messages whose wording plays no role are constructors of \<open>outmsg\<close>,
    with the interpolated values as arguments; the replies of \<open>coachReply\<close> are
    character strings.
  \<^item> The runtime document (job heartbeats, send counters) and the logger are not
    modelled.
\<close>

type_synonym date = int

record clock =
  todayDate :: date
  hhmm :: string
  isoNow :: string

text \<open>An entry \<^verbatim>\<open>{ text, timestamp }\<close>; the field \<^verbatim>\<open>text\<close> is \<open>etext\<close>.\<close>

record entry =
  etext :: string
  timestamp :: string

text \<open>One day object of \<^verbatim>\<open>user.logs\<close>; \<open>counted\<close> is the property \<^verbatim>\<open>_counted\<close>.\<close>

record daylog =
  am :: "entry option"
  pm :: "entry option"
  amPromptSent :: bool
  pmPromptSent :: bool
  counted :: bool

record stats =
  totalDays :: int
  daysWithBoth :: int
  streakCurrent :: int
  streakBest :: int

datatype pending = Setgoals | Am | Pm

datatype step = Name | Timezone | Habits | AmTime | PmTime

record weeksnap =
  startDate :: date
  endDate :: date
  habitExecutionRate :: nat
  completedDays :: nat
  snapTotalDays :: nat
  generatedAt :: string

record user =
  chatId :: string
  firstName :: string
  name :: string
  timezone :: string
  amTime :: string
  pmTime :: string
  goalsText :: string
  habitsText :: string
  pending :: "pending option"
  onboardingStep :: "step option"
  onboarded :: bool
  logs :: "date \<rightharpoonup> daylog"
  stats :: stats
  weeklyStats :: "(date \<times> date) \<rightharpoonup> weeksnap"

text \<open>
  The table \<^verbatim>\<open>users\<close>, in the order in which \<^verbatim>\<open>Object.values\<close> enumerates it. A
  new key goes to the end. (JavaScript enumerates keys that are array indices first, in
  numeric order; no statement below depends on the relative order of two users.)
\<close>

type_synonym store = "(string \<times> user) list"

datatype outmsg =
    BETA_WELCOME_MESSAGE
  | STEP1_START
  | ONBOARDING_RESET
  | UPDATE_MISSION
  | StartSummary string string string string string int int int int
  | StatusText date bool bool int int int int
  | COMPLETE_ONBOARDING_FIRST
  | NO_DATA_YET
  | AM_PROMPT
  | PM_PROMPT
  | WeeklyReport date nat nat nat
  | STEP2_TIMEZONE
  | STEP3_MISSION
  | STEP4_AM_TIME
  | STEP5_PM_TIME
  | INVALID_FORMAT
  | OnboardingComplete string string string string string
  | MissionUpdated string
  | DAWN_LOGGED
  | NIGHTLY_LOGGED
  | CoachText string
  | OPENAI_MISSING
  | OPENAI_FAILED

text \<open>
  What a handler does to the outside, in the order of the calls: \<open>Save s\<close> is
  \<^verbatim>\<open>saveUsers(users)\<close> writing the snapshot \<open>s\<close>; \<open>Send c m\<close> is the call
  \<^verbatim>\<open>safeSend(c, m)\<close>, which starts the transport request before it returns.
\<close>

datatype effect = Save store | Send string outmsg

text \<open>The same, inside the handling of one user: \<open>Persist\<close> saves the table as it
  stands once the user's object has been written back.\<close>

datatype ueffect = Persist | Out outmsg

text \<open>The answer of the text-generation service: it raises (with a message), or it
  returns a completion whose content is a string or is missing.\<close>

datatype collab = Raises string | Content "string option"

section \<open>Utilities\<close>

definition empty_day :: daylog where
  "empty_day = \<lparr>am = None, pm = None, amPromptSent = False, pmPromptSent = False,
     counted = False\<rparr>"

text \<open>\<^verbatim>\<open>user.logs[d]\<close> where the handler has made sure that the day exists.\<close>

definition day_of :: "user \<Rightarrow> date \<Rightarrow> daylog" where
  "day_of u d = (case logs u d of None \<Rightarrow> empty_day | Some day \<Rightarrow> day)"

text \<open>\<^verbatim>\<open>if (!user.logs[d]) user.logs[d] = {}\<close>\<close>

definition touch_day :: "date \<Rightarrow> user \<Rightarrow> user" where
  "touch_day d u = (case logs u d of None \<Rightarrow> u\<lparr>logs := (logs u)(d \<mapsto> empty_day)\<rparr> | Some day \<Rightarrow> u)"

text \<open>\<^verbatim>\<open>a || b\<close> on strings: the empty string is falsy.\<close>

definition js_or :: "string \<Rightarrow> string \<Rightarrow> string" where
  "js_or a b = (if a = [] then b else a)"

text \<open>White space of \<^verbatim>\<open>String.prototype.trim\<close> among the code units below 256.\<close>

definition is_ws :: "char \<Rightarrow> bool" where
  "is_ws c = (of_char c \<in> {9, 10, 11, 12, 13, 32, 160 :: nat})"

definition trim :: "string \<Rightarrow> string" where
  "trim s = rev (dropWhile is_ws (rev (dropWhile is_ws s)))"

definition is_digit :: "char \<Rightarrow> bool" where
  "is_digit c = (c \<in> set ''0123456789'')"

text \<open>\<^verbatim>\<open>Number(s)\<close> on a string of decimal digits.\<close>

definition Number_digits :: "string \<Rightarrow> nat" where
  "Number_digits s = foldl (\<lambda>n c. 10 * n + (of_char c - 48)) 0 s"

text \<open>\<^verbatim>\<open>String(n)\<close> for a natural number.\<close>

fun String_nat :: "nat \<Rightarrow> string" where
  "String_nat n =
     (if n < 10 then [char_of (48 + n)]
      else String_nat (n div 10) @ [char_of (48 + n mod 10)])"

declare String_nat.simps [simp del]

definition padStart2 :: "string \<Rightarrow> string" where
  "padStart2 s = replicate (2 - length s) (CHR ''0'') @ s"

text \<open>The match of \<^verbatim>\<open>/^(\d{1,2}):(\d{2})$/\<close>: the two groups, or no match.\<close>

fun match_time :: "string \<Rightarrow> (string \<times> string) option" where
  "match_time [h1, c, m1, m2] =
     (if is_digit h1 \<and> c = CHR '':'' \<and> is_digit m1 \<and> is_digit m2
      then Some ([h1], [m1, m2]) else None)"
| "match_time [h1, h2, c, m1, m2] =
     (if is_digit h1 \<and> is_digit h2 \<and> c = CHR '':'' \<and> is_digit m1 \<and> is_digit m2
      then Some ([h1, h2], [m1, m2]) else None)"
| "match_time _ = None"

definition formatTimeString :: "string \<Rightarrow> string option" where
  "formatTimeString txt =
     (case match_time (trim txt) of
        None \<Rightarrow> None
      | Some (g1, g2) \<Rightarrow>
          (let h = Number_digits g1; m = Number_digits g2 in
           if h > 23 \<or> m > 59 then None
           else Some (padStart2 (String_nat h) @ '':'' @ padStart2 (String_nat m))))"

section \<open>The user table\<close>

definition new_user :: "string \<Rightarrow> string \<Rightarrow> user" where
  "new_user key fn =
     \<lparr>chatId = key, firstName = fn, name = [], timezone = [],
      amTime = ''07:00'', pmTime = ''21:00'', goalsText = [], habitsText = [],
      pending = None, onboardingStep = None, onboarded = False, logs = Map.empty,
      stats = \<lparr>totalDays = 0, daysWithBoth = 0, streakCurrent = 0, streakBest = 0\<rparr>,
      weeklyStats = Map.empty\<rparr>"

text \<open>
  \<^verbatim>\<open>ensureUser(msg)\<close>: the key is \<^verbatim>\<open>String(msg.chat.id)\<close>, \<open>fn\<close> is
  \<^verbatim>\<open>msg.chat.first_name || ""\<close>. It returns the table, the user's object and the save
  it always makes.
\<close>

definition ensureUser :: "string \<Rightarrow> string \<Rightarrow> store \<Rightarrow> store \<times> user \<times> effect list" where
  "ensureUser key fn us =
     (case map_of us key of
        Some u \<Rightarrow> (us, u, [Save us])
      | None \<Rightarrow> (let u = new_user key fn; us' = us @ [(key, u)] in (us', u, [Save us'])))"

text \<open>Writing the handled user's object back, and the handler's effects on the table
  that results.\<close>

definition commit :: "string \<Rightarrow> store \<Rightarrow> user \<times> ueffect list \<Rightarrow> store \<times> effect list" where
  "commit key us r =
     (let us' = AList.update key (fst r) us in
      (us', map (\<lambda>e. case e of Persist \<Rightarrow> Save us' | Out m \<Rightarrow> Send (chatId (fst r)) m) (snd r)))"

section \<open>Daily statistics\<close>

definition updateDailyStats :: "user \<Rightarrow> date \<Rightarrow> user" where
  "updateDailyStats u dateStr =
     (case logs u dateStr of
        None \<Rightarrow> u
      | Some day \<Rightarrow>
          if counted day then u
          else
            (let s1 = (stats u)\<lparr>totalDays := totalDays (stats u) + 1\<rparr>;
                 s2 = (if am day \<noteq> None \<and> pm day \<noteq> None
                       then (let s = s1\<lparr>daysWithBoth := daysWithBoth s1 + 1,
                                        streakCurrent := streakCurrent s1 + 1\<rparr>
                             in s\<lparr>streakBest := max (streakBest s) (streakCurrent s)\<rparr>)
                       else s1\<lparr>streakCurrent := 0\<rparr>)
             in u\<lparr>stats := s2, logs := (logs u)(dateStr \<mapsto> day\<lparr>counted := True\<rparr>)\<rparr>))"

text \<open>The older variant: the best streak is raised by a comparison.\<close>

definition updateDailyStats_p1 :: "user \<Rightarrow> date \<Rightarrow> user" where
  "updateDailyStats_p1 u dateStr =
     (case logs u dateStr of
        None \<Rightarrow> u
      | Some day \<Rightarrow>
          if counted day then u
          else
            (let s1 = (stats u)\<lparr>totalDays := totalDays (stats u) + 1\<rparr>;
                 s2 = (if am day \<noteq> None \<and> pm day \<noteq> None
                       then (let s = s1\<lparr>daysWithBoth := daysWithBoth s1 + 1,
                                        streakCurrent := streakCurrent s1 + 1\<rparr>
                             in if streakCurrent s > streakBest s
                                then s\<lparr>streakBest := streakCurrent s\<rparr> else s)
                       else s1\<lparr>streakCurrent := 0\<rparr>)
             in u\<lparr>stats := s2, logs := (logs u)(dateStr \<mapsto> day\<lparr>counted := True\<rparr>)\<rparr>))"

section \<open>The coach's reply\<close>

definition coach_name :: "user \<Rightarrow> string" where
  "coach_name u = js_or (name u) (js_or (firstName u) ''warrior'')"

definition coach_goals :: "user \<Rightarrow> string" where
  "coach_goals u = js_or (goalsText u) (js_or (habitsText u) ''No mission defined.'')"

text \<open>
  \<open>hasOpenAI\<close> says whether the service is configured. Inside \<^verbatim>\<open>try\<close>, a raised
  error and a completion without content (\<^verbatim>\<open>.trim()\<close> of \<^verbatim>\<open>null\<close> throws) both reach
  \<^verbatim>\<open>catch\<close>.
\<close>

definition coachReply :: "bool \<Rightarrow> collab \<Rightarrow> user \<Rightarrow> string \<Rightarrow> string" where
  "coachReply hasOpenAI co u txt =
     (if \<not> hasOpenAI
      then coach_name u @ '', system offline.'' @ [CHR 0x0A] @ ''Your mission:'' @ [CHR 0x0A]
             @ coach_goals u
      else
        (case co of
           Content (Some c) \<Rightarrow> trim c
         | _ \<Rightarrow> coach_name u @ '', OpenAI failed.'' @ [CHR 0x0A] @ ''Message:'' @ [CHR 0x0A]
                  @ [CHR 0x22] @ txt @ [CHR 0x22] @ [CHR 0x0A] @ ''Execute one step now.''))"

definition coach_goals_p1 :: "user \<Rightarrow> string" where
  "coach_goals_p1 u = js_or (goalsText u) (js_or (habitsText u) ''No mission defined yet.'')"

definition localFallback :: "user \<Rightarrow> string \<Rightarrow> string \<Rightarrow> string" where
  "localFallback u userText extraLine =
     coach_name u @ '', higher systems are offline.'' @ [CHR 0x0A]
     @ (if extraLine = [] then [] else extraLine @ [CHR 0x0A, CHR 0x0A])
     @ ''Your current mission:'' @ [CHR 0x0A] @ coach_goals_p1 u @ [CHR 0x0A, CHR 0x0A]
     @ ''You wrote:'' @ [CHR 0x0A] @ [CHR 0x22] @ userText @ [CHR 0x22] @ [CHR 0x0A, CHR 0x0A]
     @ ''Pick one concrete action that moves your mission forward.'' @ [CHR 0x0A]
     @ ''Execute it now.''"

text \<open>The older variant; a completion without content counts as an empty reply
  (\<^verbatim>\<open>content?.trim?.() ?? ""\<close>).\<close>

definition coachReply_p1 :: "bool \<Rightarrow> collab \<Rightarrow> user \<Rightarrow> string \<Rightarrow> string" where
  "coachReply_p1 hasOpenAI co u userText =
     (if \<not> hasOpenAI then localFallback u userText ''OpenAI key missing or not loaded.''
      else
        (case co of
           Raises msg \<Rightarrow> localFallback u userText (''OpenAI error: '' @ msg)
         | Content c \<Rightarrow>
             (let t = (case c of None \<Rightarrow> [] | Some x \<Rightarrow> trim x) in
              if t = [] then localFallback u userText ''OpenAI returned an empty reply.''
              else t)))"

section \<open>Command handlers\<close>

text \<open>A handler that starts with \<^verbatim>\<open>ensureUser(msg)\<close> and then works on the user's
  object.\<close>

definition with_user ::
  "string \<Rightarrow> string \<Rightarrow> (user \<Rightarrow> user \<times> ueffect list) \<Rightarrow> store \<Rightarrow> store \<times> effect list" where
  "with_user key fn f us =
     (case ensureUser key fn us of
        (us1, u, e1) \<Rightarrow> (case commit key us1 (f u) of (us2, e2) \<Rightarrow> (us2, e1 @ e2)))"

text \<open>\<^verbatim>\<open>/start\<close>. The second message is sent when the first send has succeeded
  (\<open>sendOk\<close>).\<close>

definition start_user :: "bool \<Rightarrow> user \<Rightarrow> user \<times> ueffect list" where
  "start_user sendOk u =
     (if onboarded u
      then (u, [Out (StartSummary (js_or (name u) (firstName u)) (timezone u) (amTime u)
                  (pmTime u) (goalsText u) (daysWithBoth (stats u)) (totalDays (stats u))
                  (streakCurrent (stats u)) (streakBest (stats u)))])
      else (u\<lparr>onboardingStep := Some Name\<rparr>,
            [Persist, Out BETA_WELCOME_MESSAGE] @ (if sendOk then [Out STEP1_START] else [])))"

text \<open>\<^verbatim>\<open>/onboard\<close>\<close>

definition onboard_user :: "user \<Rightarrow> user \<times> ueffect list" where
  "onboard_user u =
     (u\<lparr>onboardingStep := Some Name, onboarded := False\<rparr>, [Persist, Out ONBOARDING_RESET])"

text \<open>\<^verbatim>\<open>/setgoals\<close>\<close>

definition setgoals_user :: "user \<Rightarrow> user \<times> ueffect list" where
  "setgoals_user u = (u\<lparr>pending := Some Setgoals\<rparr>, [Persist, Out UPDATE_MISSION])"

text \<open>\<^verbatim>\<open>/status\<close>\<close>

definition status_user :: "clock \<Rightarrow> user \<Rightarrow> user \<times> ueffect list" where
  "status_user c u =
     (let day = day_of u (todayDate c) in
      (u, [Out (StatusText (todayDate c) (am day \<noteq> None) (pm day \<noteq> None)
                  (daysWithBoth (stats u)) (totalDays (stats u))
                  (streakCurrent (stats u)) (streakBest (stats u)))]))"

text \<open>\<^verbatim>\<open>/test_am\<close> and \<^verbatim>\<open>/test_pm\<close>: the prompt is sent, then the user is marked,
  then the table is saved.\<close>

definition test_am_user :: "clock \<Rightarrow> user \<Rightarrow> user \<times> ueffect list" where
  "test_am_user c u =
     (if \<not> onboarded u then (u, [Out COMPLETE_ONBOARDING_FIRST])
      else
        (let d = todayDate c; u1 = touch_day d u in
         (u1\<lparr>pending := Some Am,
             logs := (logs u1)(d \<mapsto> (day_of u1 d)\<lparr>amPromptSent := True\<rparr>)\<rparr>,
          [Out AM_PROMPT, Persist])))"

definition test_pm_user :: "clock \<Rightarrow> user \<Rightarrow> user \<times> ueffect list" where
  "test_pm_user c u =
     (if \<not> onboarded u then (u, [Out COMPLETE_ONBOARDING_FIRST])
      else
        (let d = todayDate c; u1 = touch_day d u in
         (u1\<lparr>pending := Some Pm,
             logs := (logs u1)(d \<mapsto> (day_of u1 d)\<lparr>pmPromptSent := True\<rparr>)\<rparr>,
          [Out PM_PROMPT, Persist])))"

text \<open>
  The loop over the last seven keys: \<open>tot\<close> (\<^verbatim>\<open>total\<close>) counts the keys with a day object,
  \<open>full\<close> those with both entries. The code steps back with \<^verbatim>\<open>setDate\<close> in local
  time and takes the key from \<^verbatim>\<open>toISOString()\<close>; the keys are taken to be those of
  \<open>today, today - 1, \<dots>, today - 6\<close>, which they are unless a change of the local
  clock offset falls into the window.
\<close>

definition week_counts :: "(date \<rightharpoonup> daylog) \<Rightarrow> date \<Rightarrow> nat \<times> nat" where
  "week_counts lg today =
     foldl (\<lambda>(tot, full) i.
              case lg (today - int i) of
                None \<Rightarrow> (tot, full)
              | Some day \<Rightarrow>
                  (tot + 1, if am day \<noteq> None \<and> pm day \<noteq> None then full + 1 else full))
       (0, 0) [0..<7]"

text \<open>
  \<^verbatim>\<open>total ? Math.round((full / total) * 100) : 0\<close>. \<^verbatim>\<open>Math.round\<close> rounds halves up.
  With \<open>full \<le> tot \<le> 7\<close> the quotient is never within rounding error of a half, so
  the integer formula gives the number that the floating-point expression gives.
\<close>

definition week_rate :: "nat \<Rightarrow> nat \<Rightarrow> nat" where
  "week_rate tot full = (if tot = 0 then 0 else (200 * full + tot) div (2 * tot))"

definition weekly_text :: "clock \<Rightarrow> user \<Rightarrow> outmsg" where
  "weekly_text c u =
     (case week_counts (logs u) (todayDate c) of
        (tot, full) \<Rightarrow> WeeklyReport (todayDate c) (week_rate tot full) full tot)"

text \<open>\<^verbatim>\<open>/test_weekly\<close>\<close>

definition test_weekly_user :: "clock \<Rightarrow> user \<Rightarrow> user \<times> ueffect list" where
  "test_weekly_user c u =
     (if \<not> onboarded u then (u, [Out NO_DATA_YET]) else (u, [Out (weekly_text c u)]))"

text \<open>\<^verbatim>\<open>/gpt\<close> does not touch the table.\<close>

definition on_gpt :: "bool \<Rightarrow> string \<Rightarrow> collab \<Rightarrow> store \<Rightarrow> store \<times> effect list" where
  "on_gpt hasOpenAI key co us =
     (us, [Send key (if \<not> hasOpenAI then OPENAI_MISSING
                     else (case co of Content (Some c) \<Rightarrow> CoachText (trim c)
                                    | _ \<Rightarrow> OPENAI_FAILED))])"

section \<open>The message router\<close>

fun onboarding :: "step \<Rightarrow> string \<Rightarrow> user \<Rightarrow> user \<times> ueffect list" where
  "onboarding Name v u =
     (u\<lparr>name := v, onboardingStep := Some Timezone\<rparr>, [Persist, Out STEP2_TIMEZONE])"
| "onboarding Timezone v u =
     (u\<lparr>timezone := v, onboardingStep := Some Habits\<rparr>, [Persist, Out STEP3_MISSION])"
| "onboarding Habits v u =
     (u\<lparr>goalsText := v, habitsText := v, onboardingStep := Some AmTime\<rparr>,
      [Persist, Out STEP4_AM_TIME])"
| "onboarding AmTime v u =
     (case formatTimeString v of
        None \<Rightarrow> (u, [Out INVALID_FORMAT])
      | Some t \<Rightarrow> (u\<lparr>amTime := t, onboardingStep := Some PmTime\<rparr>,
                   [Persist, Out STEP5_PM_TIME]))"
| "onboarding PmTime v u =
     (case formatTimeString v of
        None \<Rightarrow> (u, [Out INVALID_FORMAT])
      | Some t \<Rightarrow>
          (let u' = u\<lparr>pmTime := t, onboardingStep := None, onboarded := True\<rparr> in
           (u', [Persist, Out (OnboardingComplete (name u') (timezone u') (amTime u')
                                 (pmTime u') (goalsText u'))])))"

text \<open>The part of the router that follows the onboarding block.\<close>

definition pending_flow ::
  "bool \<Rightarrow> clock \<Rightarrow> string \<Rightarrow> collab \<Rightarrow> user \<Rightarrow> user \<times> ueffect list" where
  "pending_flow hasOpenAI c txt co u =
     (let d = todayDate c in
      case pending u of
        Some Setgoals \<Rightarrow>
          (u\<lparr>goalsText := trim txt, habitsText := trim txt, pending := None\<rparr>,
           [Persist, Out (MissionUpdated (trim txt))])
      | Some Am \<Rightarrow>
          (u\<lparr>logs := (logs u)(d \<mapsto> (day_of u d)\<lparr>am := Some \<lparr>etext = txt, timestamp = isoNow c\<rparr>\<rparr>),
             pending := None\<rparr>,
           [Persist, Out DAWN_LOGGED])
      | Some Pm \<Rightarrow>
          (updateDailyStats
             (u\<lparr>logs := (logs u)(d \<mapsto> (day_of u d)\<lparr>pm := Some \<lparr>etext = txt, timestamp = isoNow c\<rparr>\<rparr>),
                pending := None\<rparr>) d,
           [Persist, Out NIGHTLY_LOGGED])
      | None \<Rightarrow> (u, [Out (CoachText (coachReply hasOpenAI co u txt))]))"

definition route ::
  "bool \<Rightarrow> clock \<Rightarrow> string \<Rightarrow> collab \<Rightarrow> user \<Rightarrow> user \<times> ueffect list" where
  "route hasOpenAI c txt co u =
     (case onboardingStep u of
        Some st \<Rightarrow> onboarding st (trim txt) u
      | None \<Rightarrow> pending_flow hasOpenAI c txt co u)"

definition startsWithSlash :: "string \<Rightarrow> bool" where
  "startsWithSlash txt = (case txt of [] \<Rightarrow> False | ch # _ \<Rightarrow> ch = CHR ''/'')"

text \<open>\<^verbatim>\<open>bot.on("message", ...)\<close>; \<open>txt\<close> is \<^verbatim>\<open>msg.text || ""\<close>. The day object is
  created after the save of \<^verbatim>\<open>ensureUser\<close>.\<close>

definition on_message ::
  "bool \<Rightarrow> clock \<Rightarrow> string \<Rightarrow> string \<Rightarrow> string \<Rightarrow> collab \<Rightarrow> store \<Rightarrow> store \<times> effect list" where
  "on_message hasOpenAI c key fn txt co us =
     (if startsWithSlash txt then (us, [])
      else with_user key fn (\<lambda>u. route hasOpenAI c txt co (touch_day (todayDate c) u)) us)"

section \<open>The scheduled jobs\<close>

text \<open>
  The body of the minute tick for one user: the user after it, the sends it starts and
  whether it sets \<^verbatim>\<open>changed\<close>. \<open>current\<close> is the local \<^verbatim>\<open>HH:MM\<close>, \<open>d\<close> the key of
  today.
\<close>

definition tick_user :: "string \<Rightarrow> date \<Rightarrow> user \<Rightarrow> user \<times> effect list \<times> bool" where
  "tick_user current d u0 =
     (if \<not> onboarded u0 then (u0, [], False)
      else
        (let u = touch_day d u0;
             fireA = (current = amTime u \<and> \<not> amPromptSent (day_of u d));
             u1 = (if fireA
                   then u\<lparr>pending := Some Am,
                          logs := (logs u)(d \<mapsto> (day_of u d)\<lparr>amPromptSent := True\<rparr>)\<rparr>
                   else u);
             fireP = (current = pmTime u1 \<and> \<not> pmPromptSent (day_of u1 d));
             u2 = (if fireP
                   then u1\<lparr>pending := Some Pm,
                           logs := (logs u1)(d \<mapsto> (day_of u1 d)\<lparr>pmPromptSent := True\<rparr>)\<rparr>
                   else u1)
         in (u2,
             (if fireA then [Send (chatId u) AM_PROMPT] else [])
             @ (if fireP then [Send (chatId u) PM_PROMPT] else []),
             fireA \<or> fireP)))"

text \<open>The minute tick: every user in turn, then one save when something was fired.\<close>

definition cron_tick :: "clock \<Rightarrow> store \<Rightarrow> store \<times> effect list" where
  "cron_tick c us =
     (let rs = map (\<lambda>(k, u). (k, tick_user (hhmm c) (todayDate c) u)) us;
          us' = map (\<lambda>(k, r). (k, fst r)) rs;
          changed = list_ex (\<lambda>(k, r). snd (snd r)) rs
      in (us', concat (map (\<lambda>(k, r). fst (snd r)) rs) @ (if changed then [Save us'] else [])))"

text \<open>The weekly job of \<^verbatim>\<open>src/bot.js\<close>: a report to every onboarded user.\<close>

definition weekly_user :: "clock \<Rightarrow> user \<Rightarrow> effect list" where
  "weekly_user c u = (if \<not> onboarded u then [] else [Send (chatId u) (weekly_text c u)])"

definition cron_weekly :: "clock \<Rightarrow> store \<Rightarrow> store \<times> effect list" where
  "cron_weekly c us = (us, concat (map (\<lambda>(k, u). weekly_user c u) us))"

text \<open>
  The weekly job of the older variant: after the send it stores the snapshot under the
  key made of the oldest and the newest date of the window, and the table is saved once
  after the loop.
\<close>

definition week_snapshot :: "clock \<Rightarrow> user \<Rightarrow> weeksnap" where
  "week_snapshot c u =
     (case week_counts (logs u) (todayDate c) of
        (tot, full) \<Rightarrow>
          \<lparr>startDate = todayDate c - 6, endDate = todayDate c,
           habitExecutionRate = week_rate tot full, completedDays = full,
           snapTotalDays = tot, generatedAt = isoNow c\<rparr>)"

definition weekly_user_p1 :: "clock \<Rightarrow> user \<Rightarrow> user \<times> effect list" where
  "weekly_user_p1 c u =
     (if \<not> onboarded u then (u, [])
      else
        (u\<lparr>weeklyStats := (weeklyStats u)((todayDate c - 6, todayDate c) \<mapsto> week_snapshot c u)\<rparr>,
         [Send (chatId u) (weekly_text c u)]))"

definition cron_weekly_p1 :: "clock \<Rightarrow> store \<Rightarrow> store \<times> effect list" where
  "cron_weekly_p1 c us =
     (let rs = map (\<lambda>(k, u). (k, weekly_user_p1 c u)) us;
          us' = map (\<lambda>(k, r). (k, fst r)) rs
      in (us', concat (map (\<lambda>(k, r). snd r) rs) @ [Save us']))"

section \<open>Events and runs\<close>

datatype event =
    CmdStart string string bool
  | CmdOnboard string string
  | CmdSetgoals string string
  | CmdStatus string string
  | CmdTestAm string string
  | CmdTestPm string string
  | CmdTestWeekly string string
  | CmdGpt string collab
  | Msg string string string collab
  | CronTick
  | CronWeekly

text \<open>One handler invocation at the clock reading \<open>c\<close>.\<close>

fun handle :: "bool \<Rightarrow> clock \<Rightarrow> event \<Rightarrow> store \<Rightarrow> store \<times> effect list" where
  "handle h c (CmdStart key fn sendOk) us = with_user key fn (start_user sendOk) us"
| "handle h c (CmdOnboard key fn) us = with_user key fn onboard_user us"
| "handle h c (CmdSetgoals key fn) us = with_user key fn setgoals_user us"
| "handle h c (CmdStatus key fn) us = with_user key fn (status_user c) us"
| "handle h c (CmdTestAm key fn) us = with_user key fn (test_am_user c) us"
| "handle h c (CmdTestPm key fn) us = with_user key fn (test_pm_user c) us"
| "handle h c (CmdTestWeekly key fn) us = with_user key fn (test_weekly_user c) us"
| "handle h c (CmdGpt key co) us = on_gpt h key co us"
| "handle h c (Msg key fn txt co) us = on_message h c key fn txt co us"
| "handle h c CronTick us = cron_tick c us"
| "handle h c CronWeekly us = cron_weekly c us"

text \<open>The table after a sequence of invocations, and everything they did to the
  outside.\<close>

fun run :: "bool \<Rightarrow> (clock \<times> event) list \<Rightarrow> store \<Rightarrow> store" where
  "run h [] us = us"
| "run h (ce # ces) us = run h ces (fst (handle h (fst ce) (snd ce) us))"

fun run_trace :: "bool \<Rightarrow> (clock \<times> event) list \<Rightarrow> store \<Rightarrow> effect list" where
  "run_trace h [] us = []"
| "run_trace h (ce # ces) us =
     snd (handle h (fst ce) (snd ce) us) @ run_trace h ces (fst (handle h (fst ce) (snd ce) us))"

section \<open>The delivery of a text message\<close>




section \<open>Notions used in the statements\<close>

text \<open>The object that \<^verbatim>\<open>ensureUser\<close> hands to a handler.\<close>

definition the_user :: "string \<Rightarrow> string \<Rightarrow> store \<Rightarrow> user" where
  "the_user key fn us = (case map_of us key of Some u \<Rightarrow> u | None \<Rightarrow> new_user key fn)"

text \<open>What one handler invocation can do to one user's object.\<close>

inductive ustep :: "user \<Rightarrow> user \<Rightarrow> bool" where
  u_same: "ustep u u"
| u_start: "ustep u (fst (start_user b u))"
| u_onboard: "ustep u (fst (onboard_user u))"
| u_setgoals: "ustep u (fst (setgoals_user u))"
| u_status: "ustep u (fst (status_user c u))"
| u_test_am: "ustep u (fst (test_am_user c u))"
| u_test_pm: "ustep u (fst (test_pm_user c u))"
| u_test_weekly: "ustep u (fst (test_weekly_user c u))"
| u_route: "ustep u (fst (route h c txt co (touch_day (todayDate c) u)))"
| u_tick: "ustep u (fst (tick_user cur d u))"

text \<open>The chain that the counters of \<open>stats\<close> keep.\<close>

definition stats_ok :: "stats \<Rightarrow> bool" where
  "stats_ok s = (0 \<le> streakCurrent s \<and> streakCurrent s \<le> daysWithBoth s \<and>
     daysWithBoth s \<le> totalDays s)"

text \<open>The prompt flags of a date, \<open>False\<close> while the day object does not exist.\<close>

definition am_sent :: "user \<Rightarrow> date \<Rightarrow> bool" where
  "am_sent u d = (case logs u d of None \<Rightarrow> False | Some day \<Rightarrow> amPromptSent day)"

definition pm_sent :: "user \<Rightarrow> date \<Rightarrow> bool" where
  "pm_sent u d = (case logs u d of None \<Rightarrow> False | Some day \<Rightarrow> pmPromptSent day)"

text \<open>The two decisions of the tick body, read off the user before the tick.\<close>

definition fire_am :: "string \<Rightarrow> date \<Rightarrow> user \<Rightarrow> bool" where
  "fire_am cur d u = (onboarded u \<and> cur = amTime u \<and> \<not> am_sent u d)"

definition fire_pm :: "string \<Rightarrow> date \<Rightarrow> user \<Rightarrow> bool" where
  "fire_pm cur d u = (onboarded u \<and> cur = pmTime u \<and> \<not> pm_sent u d)"

text \<open>A table as the handlers build it: one entry per key, and every user filed under
  its own chat id.\<close>

definition store_wf :: "store \<Rightarrow> bool" where
  "store_wf us = (distinct (map fst us) \<and> list_all (\<lambda>(k, u). chatId u = k) us)"

text \<open>What the minute ticks of a run do to the outside on the date \<open>d\<close>: the effects
  of the other handlers are left out.\<close>

fun sched_trace :: "bool \<Rightarrow> date \<Rightarrow> (clock \<times> event) list \<Rightarrow> store \<Rightarrow> effect list" where
  "sched_trace h d [] us = []"
| "sched_trace h d (ce # ces) us =
     (if snd ce = CronTick \<and> todayDate (fst ce) = d then snd (cron_tick (fst ce) us) else [])
     @ sched_trace h d ces (fst (handle h (fst ce) (snd ce) us))"

text \<open>
  Observing the order of saves and sends. \<open>heard\<close> is what a chat receives from an
  effect. \<open>write_then_notify\<close> says of a handler's result that every send comes after
  a save of the table as the handler leaves it. \<open>only_touched\<close> says that a table
  differs from another at most by day objects created empty for the date \<open>d\<close>.
\<close>

fun is_send :: "effect \<Rightarrow> bool" where
  "is_send (Save s) = False"
| "is_send (Send c m) = True"

fun heard :: "effect \<Rightarrow> (string \<times> outmsg) option" where
  "heard (Save s) = None"
| "heard (Send c m) = Some (c, m)"

fun sends_after_save :: "store \<Rightarrow> bool \<Rightarrow> effect list \<Rightarrow> bool" where
  "sends_after_save fin saved [] = True"
| "sends_after_save fin saved (Save s # es) = sends_after_save fin (saved \<or> s = fin) es"
| "sends_after_save fin saved (Send c m # es) = (saved \<and> sends_after_save fin saved es)"

definition write_then_notify :: "store \<times> effect list \<Rightarrow> bool" where
  "write_then_notify r = sends_after_save (fst r) False (snd r)"

definition only_touched :: "date \<Rightarrow> store \<Rightarrow> store \<Rightarrow> bool" where
  "only_touched d us us' =
     (\<forall>k. map_of us' k = map_of us k \<or> map_of us' k = map_option (touch_day d) (map_of us k))"

text \<open>Sample data for the concrete instances below.\<close>

definition demo_entry :: entry where
  "demo_entry = \<lparr>etext = ''done'', timestamp = ''t''\<rparr>"

definition demo_full :: daylog where
  "demo_full = empty_day\<lparr>am := Some demo_entry, pm := Some demo_entry\<rparr>"

definition demo_partial :: daylog where
  "demo_partial = empty_day\<lparr>pm := Some demo_entry\<rparr>"

definition demo_user :: user where
  "demo_user = (new_user ''42'' ''Ada'')\<lparr>onboarded := True,
     logs := [1 \<mapsto> demo_full, 2 \<mapsto> demo_full, 3 \<mapsto> demo_partial, 4 \<mapsto> demo_full]\<rparr>"

definition at :: "string \<Rightarrow> date \<Rightarrow> clock" where
  "at hm d = \<lparr>todayDate = d, hhmm = hm, isoNow = hm\<rparr>"

text \<open>A user who onboards with the times 07:00 and 21:00, and a day on which both
  prompts are fired and answered.\<close>

definition demo_onboarding :: "(clock \<times> event) list" where
  "demo_onboarding =
     [(at ''06:00'' 1, CmdStart ''42'' ''Ada'' True),
      (at ''06:01'' 1, Msg ''42'' ''Ada'' ''Ada'' (Content None)),
      (at ''06:02'' 1, Msg ''42'' ''Ada'' ''Europe/Zurich'' (Content None)),
      (at ''06:03'' 1, Msg ''42'' ''Ada'' ''Train daily'' (Content None)),
      (at ''06:04'' 1, Msg ''42'' ''Ada'' ''7:00'' (Content None)),
      (at ''06:05'' 1, Msg ''42'' ''Ada'' ''21:00'' (Content None))]"

definition demo_day :: "(clock \<times> event) list" where
  "demo_day =
     [(at ''07:00'' 1, CronTick),
      (at ''07:05'' 1, Msg ''42'' ''Ada'' ''plan'' (Content None)),
      (at ''21:00'' 1, CronTick),
      (at ''21:10'' 1, Msg ''42'' ''Ada'' ''report'' (Content None))]"


text \<open>A table with one onboarded user who has logged on the days 1, 3, 5 and 7 of a
  week, fully on the days 1 and 7.\<close>

definition demo_week :: store where
  "demo_week =
     [(''42'', (new_user ''42'' ''Ada'')\<lparr>onboarded := True,
        logs := [1 \<mapsto> demo_full, 3 \<mapsto> demo_partial, 5 \<mapsto> demo_partial, 7 \<mapsto> demo_full]\<rparr>)]"


section \<open>The time-string validator\<close>

text \<open>
  C6 (as the specification states it): the validator accepts \<^verbatim>\<open>"0:0"\<close> and
  normalises it to \<^verbatim>\<open>"00:00"\<close>. The pattern asks for two minute digits, so the code
  rejects that input.
\<close>

theorem formatTimeString_rejects_0_0: "formatTimeString ''0:0'' = None"
  by code_simp

text \<open>
  C6 (amended): \<open>formatTimeString\<close> returns \<^verbatim>\<open>"07:00"\<close> and \<^verbatim>\<open>"23:59"\<close> unchanged,
  pads a one-digit hour (\<^verbatim>\<open>"0:00"\<close> becomes \<^verbatim>\<open>"00:00"\<close>, \<^verbatim>\<open>"7:00"\<close> becomes
  \<^verbatim>\<open>"07:00"\<close>), and rejects \<^verbatim>\<open>"0:0"\<close>, \<^verbatim>\<open>"24:00"\<close>, \<^verbatim>\<open>"12:60"\<close>, \<^verbatim>\<open>"7"\<close> and
  \<^verbatim>\<open>"7:0a"\<close>.
\<close>

theorem formatTimeString_examples:
  "formatTimeString ''07:00'' = Some ''07:00'' \<and>
   formatTimeString ''23:59'' = Some ''23:59'' \<and>
   formatTimeString ''0:00'' = Some ''00:00'' \<and>
   formatTimeString ''7:00'' = Some ''07:00'' \<and>
   formatTimeString ''0:0'' = None \<and>
   formatTimeString ''24:00'' = None \<and>
   formatTimeString ''12:60'' = None \<and>
   formatTimeString ''7'' = None \<and>
   formatTimeString ''7:0a'' = None"
  by code_simp

section \<open>Daily statistics\<close>

lemma updateDailyStats_p1_eq: "updateDailyStats_p1 u d = updateDailyStats u d"
  by (simp add: updateDailyStats_p1_def updateDailyStats_def Let_def max_def split: option.splits)

lemma updateDailyStats_step:
  assumes "logs u d = Some day" "\<not> counted day"
  shows "totalDays (stats (updateDailyStats u d)) = totalDays (stats u) + 1"
    and "am day \<noteq> None \<and> pm day \<noteq> None \<Longrightarrow>
          daysWithBoth (stats (updateDailyStats u d)) = daysWithBoth (stats u) + 1 \<and>
          streakCurrent (stats (updateDailyStats u d)) = streakCurrent (stats u) + 1 \<and>
          streakBest (stats (updateDailyStats u d)) =
            max (streakBest (stats u)) (streakCurrent (stats u) + 1)"
    and "\<not> (am day \<noteq> None \<and> pm day \<noteq> None) \<Longrightarrow>
          daysWithBoth (stats (updateDailyStats u d)) = daysWithBoth (stats u) \<and>
          streakCurrent (stats (updateDailyStats u d)) = 0 \<and>
          streakBest (stats (updateDailyStats u d)) = streakBest (stats u)"
    and "logs (updateDailyStats u d) = (logs u)(d \<mapsto> day\<lparr>counted := True\<rparr>)"
  using assms by (auto simp add: updateDailyStats_def Let_def)

lemma four_days:
  assumes z: "stats u = \<lparr>totalDays = 0, daysWithBoth = 0, streakCurrent = 0, streakBest = 0\<rparr>"
    and dist: "distinct [d1, d2, d3, d4]"
    and l: "logs u d1 = Some a1" "logs u d2 = Some a2" "logs u d3 = Some a3" "logs u d4 = Some a4"
    and unc: "\<not> counted a1" "\<not> counted a2" "\<not> counted a3" "\<not> counted a4"
    and pat: "am a1 \<noteq> None \<and> pm a1 \<noteq> None" "am a2 \<noteq> None \<and> pm a2 \<noteq> None"
      "\<not> (am a3 \<noteq> None \<and> pm a3 \<noteq> None)" "am a4 \<noteq> None \<and> pm a4 \<noteq> None"
  shows "stats (foldl updateDailyStats u [d1, d2, d3, d4]) =
          \<lparr>totalDays = 4, daysWithBoth = 3, streakCurrent = 1, streakBest = 2\<rparr>"
proof -
  define u1 where "u1 = updateDailyStats u d1"
  define u2 where "u2 = updateDailyStats u1 d2"
  define u3 where "u3 = updateDailyStats u2 d3"
  define u4 where "u4 = updateDailyStats u3 d4"
  have s1: "stats u1 = \<lparr>totalDays = 1, daysWithBoth = 1, streakCurrent = 1, streakBest = 1\<rparr>"
    and l1: "logs u1 d2 = Some a2" "logs u1 d3 = Some a3" "logs u1 d4 = Some a4"
    using z dist l unc pat by (auto simp add: u1_def updateDailyStats_def Let_def)
  have s2: "stats u2 = \<lparr>totalDays = 2, daysWithBoth = 2, streakCurrent = 2, streakBest = 2\<rparr>"
    and l2: "logs u2 d3 = Some a3" "logs u2 d4 = Some a4"
    using s1 l1 dist unc pat by (auto simp add: u2_def updateDailyStats_def Let_def)
  have s3: "stats u3 = \<lparr>totalDays = 3, daysWithBoth = 2, streakCurrent = 0, streakBest = 2\<rparr>"
    and l3: "logs u3 d4 = Some a4"
    using s2 l2 dist unc pat by (auto simp add: u3_def updateDailyStats_def Let_def)
  have s4: "stats u4 = \<lparr>totalDays = 4, daysWithBoth = 3, streakCurrent = 1, streakBest = 2\<rparr>"
    using s3 l3 dist unc pat by (auto simp add: u4_def updateDailyStats_def Let_def)
  then show ?thesis by (simp add: u4_def u3_def u2_def u1_def)
qed

lemma demo_logs [simp]:
  "logs demo_user 1 = Some demo_full" "logs demo_user 2 = Some demo_full"
  "logs demo_user 3 = Some demo_partial" "logs demo_user 4 = Some demo_full"
  "stats demo_user = \<lparr>totalDays = 0, daysWithBoth = 0, streakCurrent = 0, streakBest = 0\<rparr>"
  by (simp_all add: demo_user_def new_user_def)

lemma demo_days [simp]:
  "\<not> counted demo_full" "\<not> counted demo_partial" "am demo_full \<noteq> None" "pm demo_full \<noteq> None"
  "am demo_partial = None"
  by (simp_all add: demo_full_def demo_partial_def empty_day_def)

text \<open>
  C2: called for a date whose day object exists and is not yet counted,
  \<open>updateDailyStats\<close> adds one to \<open>totalDays\<close> and latches the day; when both entries
  are present it adds one to \<open>daysWithBoth\<close> and to \<open>streakCurrent\<close> and makes
  \<open>streakBest\<close> the maximum of its old value and the new streak, otherwise it sets
  \<open>streakCurrent\<close> to zero. Hence four days that are full, full, partial and full,
  closed in this order from zeroed statistics, leave a current streak of 1 and a best
  streak of 2.
\<close>

theorem updateDailyStats_closes_day:
  "(logs u d = Some day \<and> \<not> counted day \<longrightarrow>
      totalDays (stats (updateDailyStats u d)) = totalDays (stats u) + 1 \<and>
      logs (updateDailyStats u d) = (logs u)(d \<mapsto> day\<lparr>counted := True\<rparr>) \<and>
      (am day \<noteq> None \<and> pm day \<noteq> None \<longrightarrow>
         daysWithBoth (stats (updateDailyStats u d)) = daysWithBoth (stats u) + 1 \<and>
         streakCurrent (stats (updateDailyStats u d)) = streakCurrent (stats u) + 1 \<and>
         streakBest (stats (updateDailyStats u d)) =
           max (streakBest (stats u)) (streakCurrent (stats u) + 1)) \<and>
      (\<not> (am day \<noteq> None \<and> pm day \<noteq> None) \<longrightarrow>
         daysWithBoth (stats (updateDailyStats u d)) = daysWithBoth (stats u) \<and>
         streakCurrent (stats (updateDailyStats u d)) = 0 \<and>
         streakBest (stats (updateDailyStats u d)) = streakBest (stats u)))
   \<and>
   (stats v = \<lparr>totalDays = 0, daysWithBoth = 0, streakCurrent = 0, streakBest = 0\<rparr> \<and>
    distinct [d1, d2, d3, d4] \<and>
    logs v d1 = Some a1 \<and> logs v d2 = Some a2 \<and> logs v d3 = Some a3 \<and> logs v d4 = Some a4 \<and>
    \<not> counted a1 \<and> \<not> counted a2 \<and> \<not> counted a3 \<and> \<not> counted a4 \<and>
    (am a1 \<noteq> None \<and> pm a1 \<noteq> None) \<and> (am a2 \<noteq> None \<and> pm a2 \<noteq> None) \<and>
    \<not> (am a3 \<noteq> None \<and> pm a3 \<noteq> None) \<and> (am a4 \<noteq> None \<and> pm a4 \<noteq> None) \<longrightarrow>
      streakCurrent (stats (foldl updateDailyStats v [d1, d2, d3, d4])) = 1 \<and>
      streakBest (stats (foldl updateDailyStats v [d1, d2, d3, d4])) = 2)"
proof (intro conjI impI)
  assume "stats v = \<lparr>totalDays = 0, daysWithBoth = 0, streakCurrent = 0, streakBest = 0\<rparr> \<and>
    distinct [d1, d2, d3, d4] \<and>
    logs v d1 = Some a1 \<and> logs v d2 = Some a2 \<and> logs v d3 = Some a3 \<and> logs v d4 = Some a4 \<and>
    \<not> counted a1 \<and> \<not> counted a2 \<and> \<not> counted a3 \<and> \<not> counted a4 \<and>
    (am a1 \<noteq> None \<and> pm a1 \<noteq> None) \<and> (am a2 \<noteq> None \<and> pm a2 \<noteq> None) \<and>
    \<not> (am a3 \<noteq> None \<and> pm a3 \<noteq> None) \<and> (am a4 \<noteq> None \<and> pm a4 \<noteq> None)"
  then have "stats (foldl updateDailyStats v [d1, d2, d3, d4]) =
          \<lparr>totalDays = 4, daysWithBoth = 3, streakCurrent = 1, streakBest = 2\<rparr>"
    by (intro four_days) blast+
  then show "streakCurrent (stats (foldl updateDailyStats v [d1, d2, d3, d4])) = 1"
    and "streakBest (stats (foldl updateDailyStats v [d1, d2, d3, d4])) = 2"
    by simp_all
qed (simp_all add: updateDailyStats_step)

theorem updateDailyStats_closes_day_witness:
  "logs demo_user 1 = Some demo_full \<and> \<not> counted demo_full \<and>
   am demo_full \<noteq> None \<and> pm demo_full \<noteq> None \<and>
   totalDays (stats (updateDailyStats demo_user 1)) = 1 \<and>
   daysWithBoth (stats (updateDailyStats demo_user 1)) = 1 \<and>
   streakCurrent (stats (updateDailyStats demo_user 1)) = 1 \<and>
   streakBest (stats (updateDailyStats demo_user 1)) = 1 \<and>
   logs demo_user 3 = Some demo_partial \<and> \<not> counted demo_partial \<and> am demo_partial = None \<and>
   streakCurrent (stats (updateDailyStats demo_user 3)) = 0 \<and>
   totalDays (stats (updateDailyStats demo_user 3)) = 1 \<and>
   stats demo_user = \<lparr>totalDays = 0, daysWithBoth = 0, streakCurrent = 0, streakBest = 0\<rparr> \<and>
   streakCurrent (stats (foldl updateDailyStats demo_user [1, 2, 3, 4])) = 1 \<and>
   streakBest (stats (foldl updateDailyStats demo_user [1, 2, 3, 4])) = 2"
  using updateDailyStats_closes_day [of demo_user 1 demo_full demo_user 1 2 3 4
      demo_full demo_full demo_partial demo_full]
    updateDailyStats_closes_day [of demo_user 3 demo_partial demo_user 1 2 3 4
      demo_full demo_full demo_partial demo_full]
  by simp

text \<open>
  C3: \<open>updateDailyStats\<close> is idempotent: a second call for the same date returns the
  user of the first call unchanged (statistics and day objects alike), in both variants
  of the function.
\<close>

theorem updateDailyStats_idempotent:
  "updateDailyStats (updateDailyStats u d) d = updateDailyStats u d \<and>
   updateDailyStats_p1 (updateDailyStats_p1 u d) d = updateDailyStats_p1 u d"
  by (simp add: updateDailyStats_p1_eq) (simp add: updateDailyStats_def Let_def split: option.splits)

section \<open>The coach's reply\<close>

lemma coachReply_raises_shape:
  "coachReply True (Raises m) u t =
     (coach_name u @ '', OpenAI failed.'' @ [CHR 0x0A] @ ''Message:'' @ [CHR 0x0A, CHR 0x22])
       @ t @ ([CHR 0x22, CHR 0x0A] @ ''Execute one step now.'')"
  by (simp add: coachReply_def)

lemma localFallback_shape:
  "localFallback u t x =
     (coach_name u @ '', higher systems are offline.'' @ [CHR 0x0A]
        @ (if x = [] then [] else x @ [CHR 0x0A, CHR 0x0A])
        @ ''Your current mission:'' @ [CHR 0x0A] @ coach_goals_p1 u @ [CHR 0x0A, CHR 0x0A]
        @ ''You wrote:'' @ [CHR 0x0A, CHR 0x22])
       @ t @ ([CHR 0x22, CHR 0x0A, CHR 0x0A]
        @ ''Pick one concrete action that moves your mission forward.'' @ [CHR 0x0A]
        @ ''Execute it now.'')"
  by (simp add: localFallback_def)

lemma localFallback_goals_shape:
  "localFallback u t x =
     (coach_name u @ '', higher systems are offline.'' @ [CHR 0x0A]
        @ (if x = [] then [] else x @ [CHR 0x0A, CHR 0x0A])
        @ ''Your current mission:'' @ [CHR 0x0A])
       @ coach_goals_p1 u @ ([CHR 0x0A, CHR 0x0A]
        @ ''You wrote:'' @ [CHR 0x0A, CHR 0x22] @ t @ [CHR 0x22, CHR 0x0A, CHR 0x0A]
        @ ''Pick one concrete action that moves your mission forward.'' @ [CHR 0x0A]
        @ ''Execute it now.'')"
  by (simp add: localFallback_def)

lemma localFallback_contains: "sublist t (localFallback u t x)"
  by (subst localFallback_shape) (rule sublist_appendI)

lemma localFallback_goals: "sublist (coach_goals_p1 u) (localFallback u t x)"
  by (subst localFallback_goals_shape) (rule sublist_appendI)

lemma localFallback_nonempty: "localFallback u t x \<noteq> []"
  by (simp add: localFallback_def)

text \<open>
  C9: \<open>coachReply\<close> turns a failure of the text-generation service into a reply. When
  the service raises (or its completion has no content), the reply is non-empty and
  contains the user's message \<open>t\<close>. When no service is configured, the reply is a fixed
  template around the user's mission text (\<open>goalsText\<close>, else \<open>habitsText\<close>, else a
  placeholder); it depends neither on the message nor on the service. Both variants
  of the function behave so.
\<close>

theorem coachReply_fallback:
  "coachReply True (Raises m) u t \<noteq> [] \<and>
   sublist t (coachReply True (Raises m) u t) \<and>
   coachReply True (Content None) u t = coachReply True (Raises m) u t \<and>
   coachReply False co u t =
     coach_name u @ '', system offline.'' @ [CHR 0x0A] @ ''Your mission:'' @ [CHR 0x0A]
       @ coach_goals u \<and>
   coach_goals u =
     (if goalsText u \<noteq> [] then goalsText u
      else if habitsText u \<noteq> [] then habitsText u else ''No mission defined.'') \<and>
   coachReply_p1 True (Raises m) u t \<noteq> [] \<and>
   sublist t (coachReply_p1 True (Raises m) u t) \<and>
   coachReply_p1 False co u t = localFallback u t ''OpenAI key missing or not loaded.'' \<and>
   sublist (coach_goals_p1 u) (coachReply_p1 False co u t)"
proof (intro conjI)
  show "sublist t (coachReply True (Raises m) u t)"
    by (subst coachReply_raises_shape) (rule sublist_appendI)
  show "coachReply True (Raises m) u t \<noteq> []"
    by (simp add: coachReply_def)
  show "coachReply True (Content None) u t = coachReply True (Raises m) u t"
    by (simp add: coachReply_def)
  show "coachReply False co u t =
     coach_name u @ '', system offline.'' @ [CHR 0x0A] @ ''Your mission:'' @ [CHR 0x0A]
       @ coach_goals u"
    by (simp add: coachReply_def)
  show "coach_goals u =
     (if goalsText u \<noteq> [] then goalsText u
      else if habitsText u \<noteq> [] then habitsText u else ''No mission defined.'')"
    by (simp add: coach_goals_def js_or_def)
  show "coachReply_p1 True (Raises m) u t \<noteq> []"
    by (simp add: coachReply_p1_def localFallback_nonempty)
  show "sublist t (coachReply_p1 True (Raises m) u t)"
    by (simp add: coachReply_p1_def localFallback_contains)
  show "coachReply_p1 False co u t = localFallback u t ''OpenAI key missing or not loaded.''"
    by (simp add: coachReply_p1_def)
  show "sublist (coach_goals_p1 u) (coachReply_p1 False co u t)"
    by (simp add: coachReply_p1_def localFallback_goals)
qed

section \<open>Handlers and the table\<close>

lemma ensureUser_fst:
  "fst (ensureUser key fn us) = (case map_of us key of Some u \<Rightarrow> us | None \<Rightarrow> us @ [(key, new_user key fn)])"
  by (simp add: ensureUser_def Let_def split: option.splits)

lemma ensureUser_user: "fst (snd (ensureUser key fn us)) = the_user key fn us"
  by (simp add: ensureUser_def the_user_def Let_def split: option.splits)

lemma ensureUser_effects: "snd (snd (ensureUser key fn us)) = [Save (fst (ensureUser key fn us))]"
  by (simp add: ensureUser_def Let_def split: option.splits)

lemma map_of_ensureUser:
  "map_of (fst (ensureUser key fn us)) k =
     (if k = key then Some (the_user key fn us) else map_of us k)"
  by (auto simp add: ensureUser_fst the_user_def map_add_def split: option.splits)

lemma with_user_fst:
  "fst (with_user key fn f us) =
     AList.update key (fst (f (the_user key fn us))) (fst (ensureUser key fn us))"
  by (simp add: with_user_def commit_def Let_def ensureUser_def the_user_def split: option.splits prod.splits)

lemma map_of_with_user:
  "map_of (fst (with_user key fn f us)) k =
     (if k = key then Some (fst (f (the_user key fn us))) else map_of us k)"
  by (simp add: with_user_fst update_conv' map_of_ensureUser)

lemma cron_tick_fst:
  "fst (cron_tick c us) = map (\<lambda>(k, u). (k, fst (tick_user (hhmm c) (todayDate c) u))) us"
  by (simp add: cron_tick_def Let_def case_prod_unfold comp_def)

lemma map_of_cron_tick:
  "map_of (fst (cron_tick c us)) k =
     map_option (\<lambda>u. fst (tick_user (hhmm c) (todayDate c) u)) (map_of us k)"
  by (simp add: cron_tick_fst map_of_map)

lemma handle_old:
  assumes "map_of us k = Some u"
  shows "\<exists>u'. map_of (fst (handle h c ev us)) k = Some u' \<and> ustep u u'"
proof (cases ev)
  case (Msg key fn msgtext co)
  then show ?thesis using assms
    by (auto simp add: on_message_def map_of_with_user the_user_def intro: ustep.intros)
next
  case CronTick
  then show ?thesis using assms by (auto simp add: map_of_cron_tick intro: ustep.intros)
next
  case CronWeekly
  then show ?thesis using assms by (auto simp add: cron_weekly_def intro: ustep.intros)
next
  case (CmdGpt key co)
  then show ?thesis using assms by (auto simp add: on_gpt_def intro: ustep.intros)
qed (insert assms, auto simp add: map_of_with_user the_user_def intro: ustep.intros)

lemma handle_new:
  assumes "map_of us k = None" "map_of (fst (handle h c ev us)) k = Some u'"
  shows "\<exists>fn. ustep (new_user k fn) u'"
proof (cases ev)
  case (Msg key fn msgtext co)
  then show ?thesis using assms
    by (auto simp add: on_message_def map_of_with_user the_user_def split: if_splits intro: ustep.intros)
next
  case CronTick
  then show ?thesis using assms by (auto simp add: map_of_cron_tick)
next
  case CronWeekly
  then show ?thesis using assms by (auto simp add: cron_weekly_def)
next
  case (CmdGpt key co)
  then show ?thesis using assms by (auto simp add: on_gpt_def)
qed (insert assms, auto simp add: map_of_with_user the_user_def split: if_splits intro: ustep.intros)

lemma run_invariant:
  assumes new: "\<And>k fn. P k (new_user k fn)"
    and step: "\<And>k u u'. ustep u u' \<Longrightarrow> P k u \<Longrightarrow> P k u'"
    and start: "\<And>k u. map_of us k = Some u \<Longrightarrow> P k u"
    and fin: "map_of (run h ces us) k = Some u"
  shows "P k u"
  using start fin
proof (induction ces arbitrary: us)
  case Nil
  then show ?case by simp
next
  case (Cons ce ces)
  have "\<And>k' u'. map_of (fst (handle h (fst ce) (snd ce) us)) k' = Some u' \<Longrightarrow> P k' u'"
  proof -
    fix k' u'
    assume a: "map_of (fst (handle h (fst ce) (snd ce) us)) k' = Some u'"
    show "P k' u'"
    proof (cases "map_of us k'")
      case None
      from handle_new[OF None a] new step show ?thesis by blast
    next
      case (Some u0)
      from handle_old[OF Some, of h "fst ce" "snd ce"] a Cons.prems(1)[OF Some] step
      show ?thesis by auto
    qed
  qed
  from Cons.IH[OF this] Cons.prems(2) show ?case by simp
qed

lemma updateDailyStats_ok: "stats_ok (stats u) \<Longrightarrow> stats_ok (stats (updateDailyStats u d))"
  by (auto simp add: updateDailyStats_def stats_ok_def Let_def split: option.splits)

lemma stats_touch_day [simp]: "stats (touch_day d u) = stats u"
  by (simp add: touch_day_def split: option.splits)

lemma onboarding_stats [simp]: "stats (fst (onboarding st v u)) = stats u"
  by (cases st) (simp_all add: Let_def split: option.splits)

lemma route_stats_ok: "stats_ok (stats u) \<Longrightarrow> stats_ok (stats (fst (route h c t co u)))"
  by (auto simp add: route_def pending_flow_def Let_def updateDailyStats_ok
      split: option.splits pending.splits)

lemma ustep_stats_ok: "ustep u u' \<Longrightarrow> stats_ok (stats u) \<Longrightarrow> stats_ok (stats u')"
proof (induction rule: ustep.induct)
  case (u_route u h c t co)
  then show ?case using route_stats_ok[of "touch_day (todayDate c) u"] by simp
next
  case (u_tick u cur d)
  then show ?case by (simp add: tick_user_def Let_def)
qed (simp_all add: start_user_def onboard_user_def setgoals_user_def status_user_def
      test_am_user_def test_pm_user_def test_weekly_user_def Let_def)


text \<open>
  C10: in every table that a sequence of handler invocations builds from the empty
  table (so every user was created with the default statistics), every user's counters
  satisfy \<open>0 \<le> streakCurrent \<le> daysWithBoth \<le> totalDays\<close>.
\<close>

theorem stats_chain:
  "map_of (run h ces []) key = Some u \<Longrightarrow>
     0 \<le> streakCurrent (stats u) \<and> streakCurrent (stats u) \<le> daysWithBoth (stats u) \<and>
     daysWithBoth (stats u) \<le> totalDays (stats u)"
proof -
  assume a: "map_of (run h ces []) key = Some u"
  have "stats_ok (stats u)"
  proof (rule run_invariant[where P = "\<lambda>k u. stats_ok (stats u)" and us = "[]", OF _ _ _ a])
    show "\<And>k fn. stats_ok (stats (new_user k fn))" by (simp add: new_user_def stats_ok_def)
    show "\<And>k u u'. ustep u u' \<Longrightarrow> stats_ok (stats u) \<Longrightarrow> stats_ok (stats u')"
      by (rule ustep_stats_ok)
    show "\<And>k u. map_of [] k = Some u \<Longrightarrow> stats_ok (stats u)" by simp
  qed
  then show ?thesis by (simp add: stats_ok_def)
qed

theorem stats_chain_witness:
  "map_option stats (map_of (run True (demo_onboarding @ demo_day) []) ''42'') =
     Some \<lparr>totalDays = 1, daysWithBoth = 1, streakCurrent = 1, streakBest = 1\<rparr> \<and>
   (\<exists>u. map_of (run True (demo_onboarding @ demo_day) []) ''42'' = Some u \<and>
        0 \<le> streakCurrent (stats u) \<and> streakCurrent (stats u) \<le> daysWithBoth (stats u) \<and>
        daysWithBoth (stats u) \<le> totalDays (stats u))"
proof -
  have e: "map_option stats (map_of (run True (demo_onboarding @ demo_day) []) ''42'') =
     Some \<lparr>totalDays = 1, daysWithBoth = 1, streakCurrent = 1, streakBest = 1\<rparr>"
    by code_simp
  then obtain u where u: "map_of (run True (demo_onboarding @ demo_day) []) ''42'' = Some u"
    by auto
  from stats_chain[OF u] u e show ?thesis by blast
qed

section \<open>The minute tick\<close>

lemma touch_day_fields [simp]:
  "chatId (touch_day d u) = chatId u"
  "onboarded (touch_day d u) = onboarded u"
  "onboardingStep (touch_day d u) = onboardingStep u"
  "pending (touch_day d u) = pending u"
  "amTime (touch_day d u) = amTime u"
  "pmTime (touch_day d u) = pmTime u"
  "goalsText (touch_day d u) = goalsText u"
  "habitsText (touch_day d u) = habitsText u"
  "name (touch_day d u) = name u"
  "firstName (touch_day d u) = firstName u"
  "weeklyStats (touch_day d u) = weeklyStats u"
  by (simp_all add: touch_day_def split: option.splits)

lemma logs_touch_day: "logs (touch_day d u) d' = (if d' = d then Some (day_of u d) else logs u d')"
  by (simp add: touch_day_def day_of_def split: option.splits)

lemma day_of_touch_day [simp]: "day_of (touch_day d u) d' = day_of u d'"
  by (simp add: day_of_def logs_touch_day)

lemma am_sent_day_of: "am_sent u d = amPromptSent (day_of u d)"
  by (simp add: am_sent_def day_of_def empty_day_def split: option.splits)

lemma pm_sent_day_of: "pm_sent u d = pmPromptSent (day_of u d)"
  by (simp add: pm_sent_def day_of_def empty_day_def split: option.splits)

lemma day_of_upd [simp]:
  "day_of (u\<lparr>logs := (logs u)(d \<mapsto> x)\<rparr>) d' = (if d' = d then x else day_of u d')"
  "day_of (u\<lparr>pending := p, logs := (logs u)(d \<mapsto> x)\<rparr>) d' = (if d' = d then x else day_of u d')"
  "day_of (u\<lparr>logs := (logs u)(d \<mapsto> x), pending := p\<rparr>) d' = (if d' = d then x else day_of u d')"
  by (simp_all add: day_of_def)


lemma touch_day_idem: "(touch_day d u)\<lparr>logs := (logs (touch_day d u))(d \<mapsto> day_of u d)\<rparr> = touch_day d u"
  by (auto simp add: touch_day_def day_of_def map_upd_triv split: option.splits)

lemma tick_user_off: "\<not> onboarded u \<Longrightarrow> tick_user cur d u = (u, [], False)"
  by (simp add: tick_user_def)

lemma tick_user_none:
  assumes "onboarded u" "\<not> fire_am cur d u" "\<not> fire_pm cur d u"
  shows "tick_user cur d u = (touch_day d u, [], False)"
  using assms unfolding tick_user_def fire_am_def fire_pm_def am_sent_day_of pm_sent_day_of Let_def
  by (simp; blast)

lemma tick_user_am:
  assumes "fire_am cur d u" "\<not> fire_pm cur d u"
  shows "tick_user cur d u =
    ((touch_day d u)\<lparr>pending := Some Am,
        logs := (logs (touch_day d u))(d \<mapsto> (day_of u d)\<lparr>amPromptSent := True\<rparr>)\<rparr>,
     [Send (chatId u) AM_PROMPT], True)"
  using assms unfolding tick_user_def fire_am_def fire_pm_def am_sent_day_of pm_sent_day_of Let_def
  by (simp; blast)

lemma tick_user_pm:
  assumes "\<not> fire_am cur d u" "fire_pm cur d u"
  shows "tick_user cur d u =
    ((touch_day d u)\<lparr>pending := Some Pm,
        logs := (logs (touch_day d u))(d \<mapsto> (day_of u d)\<lparr>pmPromptSent := True\<rparr>)\<rparr>,
     [Send (chatId u) PM_PROMPT], True)"
  using assms unfolding tick_user_def fire_am_def fire_pm_def am_sent_day_of pm_sent_day_of Let_def
  by (simp; blast)

lemma tick_user_both:
  assumes "fire_am cur d u" "fire_pm cur d u"
  shows "tick_user cur d u =
    ((touch_day d u)\<lparr>pending := Some Pm,
        logs := (logs (touch_day d u))(d \<mapsto> (day_of u d)\<lparr>amPromptSent := True, pmPromptSent := True\<rparr>)\<rparr>,
     [Send (chatId u) AM_PROMPT, Send (chatId u) PM_PROMPT], True)"
  using assms unfolding tick_user_def fire_am_def fire_pm_def am_sent_day_of pm_sent_day_of Let_def
  by (simp; blast)

lemma tick_user_cases:
  obtains (off) "\<not> onboarded u" "tick_user cur d u = (u, [], False)"
  | (none) "onboarded u" "\<not> fire_am cur d u" "\<not> fire_pm cur d u"
      "tick_user cur d u = (touch_day d u, [], False)"
  | (am) "fire_am cur d u" "\<not> fire_pm cur d u"
      "tick_user cur d u =
        ((touch_day d u)\<lparr>pending := Some Am,
            logs := (logs (touch_day d u))(d \<mapsto> (day_of u d)\<lparr>amPromptSent := True\<rparr>)\<rparr>,
         [Send (chatId u) AM_PROMPT], True)"
  | (pm) "\<not> fire_am cur d u" "fire_pm cur d u"
      "tick_user cur d u =
        ((touch_day d u)\<lparr>pending := Some Pm,
            logs := (logs (touch_day d u))(d \<mapsto> (day_of u d)\<lparr>pmPromptSent := True\<rparr>)\<rparr>,
         [Send (chatId u) PM_PROMPT], True)"
  | (both) "fire_am cur d u" "fire_pm cur d u"
      "tick_user cur d u =
        ((touch_day d u)\<lparr>pending := Some Pm,
            logs := (logs (touch_day d u))(d \<mapsto> (day_of u d)\<lparr>amPromptSent := True, pmPromptSent := True\<rparr>)\<rparr>,
         [Send (chatId u) AM_PROMPT, Send (chatId u) PM_PROMPT], True)"
proof (cases "onboarded u")
  case False
  then show ?thesis using off tick_user_off by blast
next
  case True
  show ?thesis
  proof (cases "fire_am cur d u")
    case a: True
    show ?thesis
    proof (cases "fire_pm cur d u")
      case True
      with a both tick_user_both show ?thesis by blast
    next
      case False
      with a am tick_user_am show ?thesis by blast
    qed
  next
    case a: False
    show ?thesis
    proof (cases "fire_pm cur d u")
      case p: True
      with a pm tick_user_pm show ?thesis by blast
    next
      case p: False
      with a True none tick_user_none show ?thesis by blast
    qed
  qed
qed

lemma not_fire_off [simp]: "\<not> onboarded u \<Longrightarrow> \<not> fire_am cur d u \<and> \<not> fire_pm cur d u"
  by (simp add: fire_am_def fire_pm_def)

lemma tick_user_sends:
  "fst (snd (tick_user cur d u)) =
     (if fire_am cur d u then [Send (chatId u) AM_PROMPT] else [])
     @ (if fire_pm cur d u then [Send (chatId u) PM_PROMPT] else [])"
  by (rule tick_user_cases[where u=u and cur=cur and d=d]) simp_all

lemma tick_user_changed:
  "snd (snd (tick_user cur d u)) = (fire_am cur d u \<or> fire_pm cur d u)"
  by (rule tick_user_cases[where u=u and cur=cur and d=d]) simp_all

lemma tick_user_am_sent:
  "am_sent (fst (tick_user cur d u)) d' = (am_sent u d' \<or> (d' = d \<and> fire_am cur d u))"
  by (rule tick_user_cases[where u=u and cur=cur and d=d]) (simp_all add: am_sent_day_of)

lemma tick_user_pm_sent:
  "pm_sent (fst (tick_user cur d u)) d' = (pm_sent u d' \<or> (d' = d \<and> fire_pm cur d u))"
  by (rule tick_user_cases[where u=u and cur=cur and d=d]) (simp_all add: pm_sent_day_of)

lemma tick_user_pending:
  "pending (fst (tick_user cur d u)) =
     (if fire_pm cur d u then Some Pm else if fire_am cur d u then Some Am else pending u)"
  by (rule tick_user_cases[where u=u and cur=cur and d=d]) simp_all

lemma tick_user_fields [simp]:
  "chatId (fst (tick_user cur d u)) = chatId u"
  "onboarded (fst (tick_user cur d u)) = onboarded u"
  "onboardingStep (fst (tick_user cur d u)) = onboardingStep u"
  "amTime (fst (tick_user cur d u)) = amTime u"
  "pmTime (fst (tick_user cur d u)) = pmTime u"
  "stats (fst (tick_user cur d u)) = stats u"
  by (rule tick_user_cases[where u=u and cur=cur and d=d]; simp)+

lemma tick_user_entries [simp]:
  "am (day_of (fst (tick_user cur d u)) d') = am (day_of u d')"
  "pm (day_of (fst (tick_user cur d u)) d') = pm (day_of u d')"
  "counted (day_of (fst (tick_user cur d u)) d') = counted (day_of u d')"
  by (rule tick_user_cases[where u=u and cur=cur and d=d]; simp)+

lemma day_of_updateDailyStats:
  "amPromptSent (day_of (updateDailyStats u d) d') = amPromptSent (day_of u d')"
  "pmPromptSent (day_of (updateDailyStats u d) d') = pmPromptSent (day_of u d')"
  "am (day_of (updateDailyStats u d) d') = am (day_of u d')"
  "pm (day_of (updateDailyStats u d) d') = pm (day_of u d')"
  by (auto simp add: updateDailyStats_def day_of_def Let_def split: option.splits)

lemma updateDailyStats_fields [simp]:
  "chatId (updateDailyStats u d) = chatId u"
  "onboarded (updateDailyStats u d) = onboarded u"
  "onboardingStep (updateDailyStats u d) = onboardingStep u"
  "pending (updateDailyStats u d) = pending u"
  "amTime (updateDailyStats u d) = amTime u"
  "pmTime (updateDailyStats u d) = pmTime u"
  by (simp_all add: updateDailyStats_def Let_def split: option.splits)

lemma onboarding_fields [simp]:
  "chatId (fst (onboarding st v u)) = chatId u"
  "logs (fst (onboarding st v u)) = logs u"
  "pending (fst (onboarding st v u)) = pending u"
  by (cases st; simp add: Let_def split: option.splits)+

lemma day_of_onboarding [simp]: "day_of (fst (onboarding st v u)) d = day_of u d"
  by (simp add: day_of_def)

lemma day_of_setgoals [simp]:
  "day_of (u\<lparr>goalsText := a, habitsText := b, pending := p\<rparr>) d = day_of u d"
  by (simp add: day_of_def)

lemma pending_flow_flags:
  "amPromptSent (day_of (fst (pending_flow h c t co u)) d') = amPromptSent (day_of u d')"
  "pmPromptSent (day_of (fst (pending_flow h c t co u)) d') = pmPromptSent (day_of u d')"
  "chatId (fst (pending_flow h c t co u)) = chatId u"
  "onboarded (fst (pending_flow h c t co u)) = onboarded u"
  "onboardingStep (fst (pending_flow h c t co u)) = onboardingStep u"
  by (simp_all add: pending_flow_def Let_def day_of_updateDailyStats
      split: option.splits pending.splits)

lemma route_flags:
  "amPromptSent (day_of (fst (route h c t co u)) d') = amPromptSent (day_of u d')"
  "pmPromptSent (day_of (fst (route h c t co u)) d') = pmPromptSent (day_of u d')"
  "chatId (fst (route h c t co u)) = chatId u"
  by (simp_all add: route_def pending_flow_flags split: option.splits)

lemma test_user_flags:
  "am_sent u d' \<Longrightarrow> am_sent (fst (test_am_user c u)) d'"
  "pm_sent u d' \<Longrightarrow> pm_sent (fst (test_am_user c u)) d'"
  "am_sent u d' \<Longrightarrow> am_sent (fst (test_pm_user c u)) d'"
  "pm_sent u d' \<Longrightarrow> pm_sent (fst (test_pm_user c u)) d'"
  "chatId (fst (test_am_user c u)) = chatId u"
  "chatId (fst (test_pm_user c u)) = chatId u"
  by (auto simp add: test_am_user_def test_pm_user_def Let_def am_sent_day_of pm_sent_day_of)

lemma ustep_sent:
  assumes "ustep u u'"
  shows "(am_sent u d \<longrightarrow> am_sent u' d) \<and> (pm_sent u d \<longrightarrow> pm_sent u' d) \<and> chatId u' = chatId u"
  using assms
proof (induction rule: ustep.induct)
  case (u_route u h c t co)
  then show ?case by (simp add: am_sent_day_of pm_sent_day_of route_flags)
next
  case (u_tick u cur d0)
  then show ?case by (simp add: tick_user_am_sent tick_user_pm_sent)
next
  case (u_test_am u c)
  then show ?case by (simp add: test_user_flags)
next
  case (u_test_pm u c)
  then show ?case by (simp add: test_user_flags)
qed (simp_all add: start_user_def onboard_user_def setgoals_user_def status_user_def
      test_weekly_user_def Let_def am_sent_def pm_sent_def)

lemma run_old:
  assumes "map_of us k = Some u"
  shows "\<exists>u'. map_of (run h ces us) k = Some u' \<and> chatId u' = chatId u \<and>
           (am_sent u d \<longrightarrow> am_sent u' d) \<and> (pm_sent u d \<longrightarrow> pm_sent u' d)"
  using assms
proof (induction ces arbitrary: us u)
  case Nil
  then show ?case by simp
next
  case (Cons ce ces)
  from handle_old[OF Cons.prems, of h "fst ce" "snd ce"]
  obtain u1 where u1: "map_of (fst (handle h (fst ce) (snd ce) us)) k = Some u1" "ustep u u1"
    by blast
  from Cons.IH[OF u1(1)] ustep_sent[OF u1(2), of d] show ?case by auto
qed

section \<open>At most one prompt per slot and day\<close>

lemma store_wf_map_of: "store_wf us \<Longrightarrow> map_of us k = Some u \<Longrightarrow> chatId u = k"
  by (auto simp add: store_wf_def list_all_iff dest: map_of_SomeD)

lemma with_user_keys:
  assumes "distinct (map fst us)"
  shows "distinct (map fst (fst (with_user key fn f us)))"
proof -
  have "distinct (map fst (fst (ensureUser key fn us)))"
    using assms by (auto simp add: ensureUser_fst map_of_eq_None_iff split: option.splits)
  then show ?thesis by (simp add: with_user_fst distinct_update)
qed

lemma handle_keys:
  assumes "distinct (map fst us)"
  shows "distinct (map fst (fst (handle h c ev us)))"
proof (cases ev)
  case (Msg key fn msgtext co)
  then show ?thesis using assms by (simp add: on_message_def with_user_keys)
next
  case CronTick
  then show ?thesis using assms by (simp add: cron_tick_fst comp_def case_prod_unfold)
next
  case CronWeekly
  then show ?thesis using assms by (simp add: cron_weekly_def)
next
  case (CmdGpt key co)
  then show ?thesis using assms by (simp add: on_gpt_def)
qed (simp_all add: with_user_keys assms)

lemma handle_wf:
  assumes "store_wf us"
  shows "store_wf (fst (handle h c ev us))"
proof -
  let ?us' = "fst (handle h c ev us)"
  have d: "distinct (map fst ?us')" using assms handle_keys by (simp add: store_wf_def)
  have "chatId u' = k" if "(k, u') \<in> set ?us'" for k u'
  proof -
    from that d have m: "map_of ?us' k = Some u'" by simp
    show ?thesis
    proof (cases "map_of us k")
      case None
      from handle_new[OF None m] obtain fn where "ustep (new_user k fn) u'" by blast
      from ustep_sent[OF this, of 0] show ?thesis by (simp add: new_user_def)
    next
      case (Some u)
      from handle_old[OF Some, of h c ev] m have "ustep u u'" by auto
      from ustep_sent[OF this, of 0] store_wf_map_of[OF assms Some] show ?thesis by simp
    qed
  qed
  with d show ?thesis by (auto simp add: store_wf_def list_all_iff)
qed

lemma run_wf: "store_wf us \<Longrightarrow> store_wf (run h ces us)"
  by (induction ces arbitrary: us) (simp_all add: handle_wf)

lemma cron_tick_snd:
  "snd (cron_tick c us) =
     concat (map (\<lambda>(k, u). fst (snd (tick_user (hhmm c) (todayDate c) u))) us)
     @ (if list_ex (\<lambda>(k, u). snd (snd (tick_user (hhmm c) (todayDate c) u))) us
        then [Save (fst (cron_tick c us))] else [])"
  by (simp add: cron_tick_def Let_def case_prod_unfold comp_def list_ex_iff)

lemma count_sends_absent:
  assumes "list_all (\<lambda>(k, u). chatId u = k) us" "k \<notin> fst ` set us"
  shows "count_list (concat (map (\<lambda>(k, u). fst (snd (tick_user cur d u))) us)) (Send k m) = 0"
  using assms by (induction us) (auto simp add: tick_user_sends)

lemma count_sends_am:
  assumes "list_all (\<lambda>(k, u). chatId u = k) us" "distinct (map fst us)"
  shows "count_list (concat (map (\<lambda>(k, u). fst (snd (tick_user cur d u))) us)) (Send k AM_PROMPT) =
     (case map_of us k of None \<Rightarrow> 0 | Some u \<Rightarrow> if fire_am cur d u then 1 else 0)"
  using assms
proof (induction us)
  case Nil
  then show ?case by simp
next
  case (Cons a us)
  obtain k' u' where a: "a = (k', u')" by (cases a)
  show ?case
  proof (cases "k' = k")
    case True
    with Cons.prems a have "k \<notin> fst ` set us" "list_all (\<lambda>(k, u). chatId u = k) us" "chatId u' = k"
      by auto
    with count_sends_absent[OF this(2) this(1)] a True show ?thesis
      by (simp add: tick_user_sends)
  next
    case False
    with Cons a show ?thesis by (auto simp add: tick_user_sends)
  qed
qed

lemma count_sends_pm:
  assumes "list_all (\<lambda>(k, u). chatId u = k) us" "distinct (map fst us)"
  shows "count_list (concat (map (\<lambda>(k, u). fst (snd (tick_user cur d u))) us)) (Send k PM_PROMPT) =
     (case map_of us k of None \<Rightarrow> 0 | Some u \<Rightarrow> if fire_pm cur d u then 1 else 0)"
  using assms
proof (induction us)
  case Nil
  then show ?case by simp
next
  case (Cons a us)
  obtain k' u' where a: "a = (k', u')" by (cases a)
  show ?case
  proof (cases "k' = k")
    case True
    with Cons.prems a have "k \<notin> fst ` set us" "list_all (\<lambda>(k, u). chatId u = k) us" "chatId u' = k"
      by auto
    with count_sends_absent[OF this(2) this(1)] a True show ?thesis
      by (simp add: tick_user_sends)
  next
    case False
    with Cons a show ?thesis by (auto simp add: tick_user_sends)
  qed
qed

lemma tick_count:
  assumes "store_wf us"
  shows "count_list (snd (cron_tick c us)) (Send k AM_PROMPT) =
           (case map_of us k of None \<Rightarrow> 0 | Some u \<Rightarrow> if fire_am (hhmm c) (todayDate c) u then 1 else 0)"
    and "count_list (snd (cron_tick c us)) (Send k PM_PROMPT) =
           (case map_of us k of None \<Rightarrow> 0 | Some u \<Rightarrow> if fire_pm (hhmm c) (todayDate c) u then 1 else 0)"
  using assms by (simp_all add: cron_tick_snd store_wf_def count_sends_am count_sends_pm)

lemma handle_sent_mono:
  assumes "\<exists>u. map_of us k = Some u \<and> am_sent u d"
  shows "\<exists>u. map_of (fst (handle h c ev us)) k = Some u \<and> am_sent u d"
proof -
  from assms obtain u where u: "map_of us k = Some u" "am_sent u d" by blast
  from handle_old[OF u(1), of h c ev] obtain u' where
    "map_of (fst (handle h c ev us)) k = Some u'" "ustep u u'" by blast
  with ustep_sent[OF this(2), of d] u(2) show ?thesis by blast
qed

lemma handle_sent_mono_pm:
  assumes "\<exists>u. map_of us k = Some u \<and> pm_sent u d"
  shows "\<exists>u. map_of (fst (handle h c ev us)) k = Some u \<and> pm_sent u d"
proof -
  from assms obtain u where u: "map_of us k = Some u" "pm_sent u d" by blast
  from handle_old[OF u(1), of h c ev] obtain u' where
    "map_of (fst (handle h c ev us)) k = Some u'" "ustep u u'" by blast
  with ustep_sent[OF this(2), of d] u(2) show ?thesis by blast
qed

lemma sched_am_bound:
  assumes "store_wf us"
  shows "count_list (sched_trace h d ces us) (Send k AM_PROMPT) \<le> 1 \<and>
         ((\<exists>u. map_of us k = Some u \<and> am_sent u d) \<longrightarrow>
            count_list (sched_trace h d ces us) (Send k AM_PROMPT) = 0)"
  using assms
proof (induction ces arbitrary: us)
  case Nil
  then show ?case by simp
next
  case (Cons ce ces)
  let ?us' = "fst (handle h (fst ce) (snd ce) us)"
  let ?tail = "count_list (sched_trace h d ces ?us') (Send k AM_PROMPT)"
  have wf': "store_wf ?us'" using Cons.prems by (rule handle_wf)
  from Cons.IH[OF wf'] have t1: "?tail \<le> 1"
    and t0: "(\<exists>u. map_of ?us' k = Some u \<and> am_sent u d) \<Longrightarrow> ?tail = 0" by blast+
  show ?case
  proof (cases "snd ce = CronTick \<and> todayDate (fst ce) = d")
    case False
    then have "count_list (sched_trace h d (ce # ces) us) (Send k AM_PROMPT) = ?tail" by auto
    with t1 t0 handle_sent_mono[of us k d h "fst ce" "snd ce"] show ?thesis by auto
  next
    case True
    let ?head = "count_list (snd (cron_tick (fst ce) us)) (Send k AM_PROMPT)"
    from True have tot: "count_list (sched_trace h d (ce # ces) us) (Send k AM_PROMPT) = ?head + ?tail"
      by simp
    from True have us': "?us' = fst (cron_tick (fst ce) us)" by simp
    show ?thesis
    proof (cases "\<exists>u. map_of us k = Some u \<and> fire_am (hhmm (fst ce)) d u")
      case fired: True
      then obtain u where u: "map_of us k = Some u" "fire_am (hhmm (fst ce)) d u" by blast
      from u True have h1: "?head = 1" by (simp add: tick_count(1)[OF Cons.prems])
      from u True have "map_of ?us' k = Some (fst (tick_user (hhmm (fst ce)) d u))"
        by (simp add: map_of_cron_tick)
      moreover have "am_sent (fst (tick_user (hhmm (fst ce)) d u)) d"
        using u(2) by (simp add: tick_user_am_sent)
      ultimately have "?tail = 0" using t0 by blast
      moreover from u have "\<not> (\<exists>u. map_of us k = Some u \<and> am_sent u d)"
        by (auto simp add: fire_am_def)
      ultimately show ?thesis using tot h1 by simp
    next
      case notfired: False
      with True have h0: "?head = 0"
        by (auto simp add: tick_count(1)[OF Cons.prems] split: option.splits)
      with tot t1 t0 handle_sent_mono[of us k d h "fst ce" "snd ce"] show ?thesis by auto
    qed
  qed
qed

lemma sched_pm_bound:
  assumes "store_wf us"
  shows "count_list (sched_trace h d ces us) (Send k PM_PROMPT) \<le> 1 \<and>
         ((\<exists>u. map_of us k = Some u \<and> pm_sent u d) \<longrightarrow>
            count_list (sched_trace h d ces us) (Send k PM_PROMPT) = 0)"
  using assms
proof (induction ces arbitrary: us)
  case Nil
  then show ?case by simp
next
  case (Cons ce ces)
  let ?us' = "fst (handle h (fst ce) (snd ce) us)"
  let ?tail = "count_list (sched_trace h d ces ?us') (Send k PM_PROMPT)"
  have wf': "store_wf ?us'" using Cons.prems by (rule handle_wf)
  from Cons.IH[OF wf'] have t1: "?tail \<le> 1"
    and t0: "(\<exists>u. map_of ?us' k = Some u \<and> pm_sent u d) \<Longrightarrow> ?tail = 0" by blast+
  show ?case
  proof (cases "snd ce = CronTick \<and> todayDate (fst ce) = d")
    case False
    then have "count_list (sched_trace h d (ce # ces) us) (Send k PM_PROMPT) = ?tail" by auto
    with t1 t0 handle_sent_mono_pm[of us k d h "fst ce" "snd ce"] show ?thesis by auto
  next
    case True
    let ?head = "count_list (snd (cron_tick (fst ce) us)) (Send k PM_PROMPT)"
    from True have tot: "count_list (sched_trace h d (ce # ces) us) (Send k PM_PROMPT) = ?head + ?tail"
      by simp
    from True have us': "?us' = fst (cron_tick (fst ce) us)" by simp
    show ?thesis
    proof (cases "\<exists>u. map_of us k = Some u \<and> fire_pm (hhmm (fst ce)) d u")
      case fired: True
      then obtain u where u: "map_of us k = Some u" "fire_pm (hhmm (fst ce)) d u" by blast
      from u True have h1: "?head = 1" by (simp add: tick_count(2)[OF Cons.prems])
      from u True have "map_of ?us' k = Some (fst (tick_user (hhmm (fst ce)) d u))"
        by (simp add: map_of_cron_tick)
      moreover have "pm_sent (fst (tick_user (hhmm (fst ce)) d u)) d"
        using u(2) by (simp add: tick_user_pm_sent)
      ultimately have "?tail = 0" using t0 by blast
      moreover from u have "\<not> (\<exists>u. map_of us k = Some u \<and> pm_sent u d)"
        by (auto simp add: fire_pm_def)
      ultimately show ?thesis using tot h1 by simp
    next
      case notfired: False
      with True have h0: "?head = 0"
        by (auto simp add: tick_count(2)[OF Cons.prems] split: option.splits)
      with tot t1 t0 handle_sent_mono_pm[of us k d h "fst ce" "snd ce"] show ?thesis by auto
    qed
  qed
qed

lemma ticks_trace:
  "run_trace h (replicate n (c, CronTick)) us = sched_trace h (todayDate c) (replicate n (c, CronTick)) us"
  by (induction n arbitrary: us) simp_all

lemma ticks_exactly_one:
  assumes wf: "store_wf us" and u: "map_of us k = Some u" and f: "fire_am (hhmm c) (todayDate c) u"
  shows "count_list (run_trace h (replicate (Suc n) (c, CronTick)) us) (Send k AM_PROMPT) = 1"
proof -
  let ?us' = "fst (cron_tick c us)"
  have h1: "count_list (snd (cron_tick c us)) (Send k AM_PROMPT) = 1"
    using u f by (simp add: tick_count(1)[OF wf])
  have "map_of ?us' k = Some (fst (tick_user (hhmm c) (todayDate c) u))"
    using u by (simp add: map_of_cron_tick)
  moreover have "am_sent (fst (tick_user (hhmm c) (todayDate c) u)) (todayDate c)"
    using f by (simp add: tick_user_am_sent)
  ultimately have "\<exists>u. map_of ?us' k = Some u \<and> am_sent u (todayDate c)" by blast
  with sched_am_bound[OF handle_wf[OF wf, of h c CronTick], of h "todayDate c" "replicate n (c, CronTick)" k]
  have "count_list (sched_trace h (todayDate c) (replicate n (c, CronTick)) ?us') (Send k AM_PROMPT) = 0"
    by simp
  with h1 show ?thesis by (simp add: ticks_trace)
qed

text \<open>
  C1: the flags \<open>amPromptSent\<close> and \<open>pmPromptSent\<close> of a user and a date are never
  reset: once set, they stay set through every sequence of handler invocations. Over a
  whole history that starts from the empty table, the minute ticks of one date send
  at most one AM prompt and at most one PM prompt to a chat. And 120 ticks in a row
  whose time is the AM time of an onboarded user who has not been prompted that day
  send that user exactly one AM prompt.
\<close>

theorem prompt_at_most_once:
  "(map_of us k = Some u \<and> am_sent u d \<longrightarrow>
      (\<exists>u'. map_of (run h ces us) k = Some u' \<and> am_sent u' d)) \<and>
   (map_of us k = Some u \<and> pm_sent u d \<longrightarrow>
      (\<exists>u'. map_of (run h ces us) k = Some u' \<and> pm_sent u' d)) \<and>
   count_list (sched_trace h d ces []) (Send k AM_PROMPT) \<le> 1 \<and>
   count_list (sched_trace h d ces []) (Send k PM_PROMPT) \<le> 1 \<and>
   (map_of (run h ces []) k = Some v \<and> onboarded v \<and> hhmm c = amTime v \<and>
    \<not> am_sent v (todayDate c) \<longrightarrow>
      count_list (run_trace h (replicate 120 (c, CronTick)) (run h ces []))
        (Send (chatId v) AM_PROMPT) = 1)"
proof (intro conjI impI)
  assume "map_of us k = Some u \<and> am_sent u d"
  with run_old[of us k u h ces d] show "\<exists>u'. map_of (run h ces us) k = Some u' \<and> am_sent u' d"
    by blast
next
  assume "map_of us k = Some u \<and> pm_sent u d"
  with run_old[of us k u h ces d] show "\<exists>u'. map_of (run h ces us) k = Some u' \<and> pm_sent u' d"
    by blast
next
  have wf: "store_wf []" by (simp add: store_wf_def)
  from sched_am_bound[OF wf] show "count_list (sched_trace h d ces []) (Send k AM_PROMPT) \<le> 1"
    by blast
  from sched_pm_bound[OF wf] show "count_list (sched_trace h d ces []) (Send k PM_PROMPT) \<le> 1"
    by blast
  assume a: "map_of (run h ces []) k = Some v \<and> onboarded v \<and> hhmm c = amTime v \<and>
    \<not> am_sent v (todayDate c)"
  have wf': "store_wf (run h ces [])" using wf by (rule run_wf)
  from a have v: "map_of (run h ces []) k = Some v" and f: "fire_am (hhmm c) (todayDate c) v"
    by (simp_all add: fire_am_def)
  have "chatId v = k" using wf' v by (rule store_wf_map_of)
  moreover have "replicate 120 (c, CronTick) = replicate (Suc 119) (c, CronTick)" by simp
  ultimately show "count_list (run_trace h (replicate 120 (c, CronTick)) (run h ces []))
        (Send (chatId v) AM_PROMPT) = 1"
    using ticks_exactly_one[OF wf' v f, of h 119] by simp
qed

theorem prompt_at_most_once_witness:
  "map_option (\<lambda>u. am_sent u 1 \<and> pm_sent u 1)
     (map_of (run True (demo_onboarding @ demo_day) []) ''42'') = Some True \<and>
   (\<exists>u'. map_of (run True demo_day (run True (demo_onboarding @ demo_day) [])) ''42'' = Some u' \<and>
      am_sent u' 1) \<and>
   (\<exists>u'. map_of (run True demo_day (run True (demo_onboarding @ demo_day) [])) ''42'' = Some u' \<and>
      pm_sent u' 1) \<and>
   map_option (\<lambda>u. (chatId u, onboarded u, amTime u, am_sent u 1))
     (map_of (run True demo_onboarding []) ''42'') = Some (''42'', True, ''07:00'', False) \<and>
   count_list (run_trace True (replicate 120 (at ''07:00'' 1, CronTick)) (run True demo_onboarding []))
     (Send ''42'' AM_PROMPT) = 1"
proof -
  have e1: "map_option (\<lambda>u. am_sent u 1 \<and> pm_sent u 1)
     (map_of (run True (demo_onboarding @ demo_day) []) ''42'') = Some True"
    by code_simp
  then obtain u where u: "map_of (run True (demo_onboarding @ demo_day) []) ''42'' = Some u"
    "am_sent u 1" "pm_sent u 1" by auto
  have e2: "map_option (\<lambda>u. (chatId u, onboarded u, amTime u, am_sent u 1))
     (map_of (run True demo_onboarding []) ''42'') = Some (''42'', True, ''07:00'', False)"
    by code_simp
  then obtain v where v: "map_of (run True demo_onboarding []) ''42'' = Some v"
    "chatId v = ''42''" "onboarded v" "amTime v = ''07:00''" "\<not> am_sent v 1" by auto
  note t = prompt_at_most_once[where us = "run True (demo_onboarding @ demo_day) []"
      and k = "''42''" and u = u and d = 1 and h = True and ces = demo_day]
  note t' = prompt_at_most_once[where k = "''42''" and h = True and ces = demo_onboarding
      and v = v and c = "at ''07:00'' 1"]
  from t u have "\<exists>u'. map_of (run True demo_day (run True (demo_onboarding @ demo_day) [])) ''42'' = Some u' \<and>
      am_sent u' 1"
    and  "\<exists>u'. map_of (run True demo_day (run True (demo_onboarding @ demo_day) [])) ''42'' = Some u' \<and>
      pm_sent u' 1" by blast+
  moreover from t' v have "count_list (run_trace True (replicate 120 (at ''07:00'' 1, CronTick))
      (run True demo_onboarding [])) (Send ''42'' AM_PROMPT) = 1"
    by (simp add: at_def)
  ultimately show ?thesis using e1 e2 by blast
qed

section \<open>Pending intents and onboarding\<close>

lemma ustep_onboarded:
  assumes "ustep u u'" "onboarded u \<longrightarrow> onboardingStep u = None"
  shows "onboarded u' \<longrightarrow> onboardingStep u' = None"
  using assms
proof (induction rule: ustep.induct)
  case (u_route u h c t co)
  show ?case
  proof (cases "onboardingStep u")
    case None
    then show ?thesis using u_route by (simp add: route_def pending_flow_flags)
  next
    case (Some st)
    with u_route have "\<not> onboarded u" by auto
    with Some show ?thesis
      by (cases st) (simp_all add: route_def Let_def split: option.splits)
  qed
qed (simp_all add: start_user_def onboard_user_def setgoals_user_def status_user_def
      test_am_user_def test_pm_user_def test_weekly_user_def Let_def)

lemma run_onboarded:
  assumes "map_of (run h ces []) k = Some u" "onboarded u"
  shows "onboardingStep u = None"
proof -
  have "onboarded u \<longrightarrow> onboardingStep u = None"
  proof (rule run_invariant[where P = "\<lambda>k u. onboarded u \<longrightarrow> onboardingStep u = None" and us = "[]",
        OF _ _ _ assms(1)])
    show "\<And>k fn. onboarded (new_user k fn) \<longrightarrow> onboardingStep (new_user k fn) = None"
      by (simp add: new_user_def)
    show "\<And>k u u'. ustep u u' \<Longrightarrow> onboarded u \<longrightarrow> onboardingStep u = None \<Longrightarrow>
        onboarded u' \<longrightarrow> onboardingStep u' = None"
      by (rule ustep_onboarded)
    show "\<And>k u. map_of [] k = Some u \<Longrightarrow> onboarded u \<longrightarrow> onboardingStep u = None" by simp
  qed
  with assms(2) show ?thesis by simp
qed

lemma pending_flow_pm:
  assumes "pending u = Some Pm"
  shows "pending (fst (pending_flow h c t co u)) = None"
    and "pm (day_of (fst (pending_flow h c t co u)) (todayDate c)) =
           Some \<lparr>etext = t, timestamp = isoNow c\<rparr>"
    and "am (day_of (fst (pending_flow h c t co u)) d') = am (day_of u d')"
  using assms by (simp_all add: pending_flow_def Let_def day_of_updateDailyStats)

lemma two_ticks_pending:
  assumes "onboarded u" "\<not> am_sent u d" "\<not> pm_sent u d" "c1 = amTime u" "c2 = pmTime u"
  shows "pending (fst (tick_user c2 d (fst (tick_user c1 d u)))) = Some Pm"
proof (cases "amTime u = pmTime u")
  case True
  with assms show ?thesis
    by (simp add: tick_user_pending fire_am_def fire_pm_def tick_user_am_sent tick_user_pm_sent)
next
  case False
  with assms show ?thesis
    by (simp add: tick_user_pending fire_am_def fire_pm_def tick_user_am_sent tick_user_pm_sent)
qed

text \<open>
  C5: pending intents are not queued. In a table that the handlers have built, take an
  onboarded user who has not been prompted on the date \<open>d\<close>. After a tick at the
  user's AM time and a tick at the PM time of that date, with no message in between,
  \<open>pending\<close> is \<open>Pm\<close> alone. The next free-text message clears \<open>pending\<close> and is
  stored as the PM entry of the day on which it arrives (the day of the prompts when
  it arrives that day); no AM entry of any day changes.
\<close>

theorem last_prompt_wins:
  "map_of (run h ces []) k = Some u \<and> onboarded u \<and> \<not> am_sent u d \<and> \<not> pm_sent u d \<and>
   todayDate c1 = d \<and> hhmm c1 = amTime u \<and> todayDate c2 = d \<and> hhmm c2 = pmTime u \<and>
   \<not> startsWithSlash t \<longrightarrow>
   (\<exists>u2. map_of (run h [(c1, CronTick), (c2, CronTick)] (run h ces [])) k = Some u2 \<and>
          pending u2 = Some Pm) \<and>
   (\<exists>u3. map_of (run h [(c1, CronTick), (c2, CronTick), (c3, Msg k fn t co)] (run h ces [])) k
            = Some u3 \<and>
          pending u3 = None \<and>
          pm (day_of u3 (todayDate c3)) = Some \<lparr>etext = t, timestamp = isoNow c3\<rparr> \<and>
          (\<forall>d'. am (day_of u3 d') = am (day_of u d')))"
proof (intro impI)
  assume a: "map_of (run h ces []) k = Some u \<and> onboarded u \<and> \<not> am_sent u d \<and> \<not> pm_sent u d \<and>
   todayDate c1 = d \<and> hhmm c1 = amTime u \<and> todayDate c2 = d \<and> hhmm c2 = pmTime u \<and>
   \<not> startsWithSlash t"
  define u2 where "u2 = fst (tick_user (hhmm c2) d (fst (tick_user (hhmm c1) d u)))"
  define u3 where "u3 = fst (route h c3 t co (touch_day (todayDate c3) u2))"
  from a have st: "onboardingStep u = None" using run_onboarded by blast
  from a have m2: "map_of (run h [(c1, CronTick), (c2, CronTick)] (run h ces [])) k = Some u2"
    by (simp add: map_of_cron_tick u2_def)
  from a have p2: "pending u2 = Some Pm" unfolding u2_def by (intro two_ticks_pending) simp_all
  have st2: "onboardingStep u2 = None" using st by (simp add: u2_def)
  from a m2 have m3: "map_of (run h [(c1, CronTick), (c2, CronTick), (c3, Msg k fn t co)]
      (run h ces [])) k = Some u3"
    by (simp add: on_message_def map_of_with_user the_user_def u3_def)
  have r: "u3 = fst (pending_flow h c3 t co (touch_day (todayDate c3) u2))"
    using st2 by (simp add: u3_def route_def)
  have p: "pending (touch_day (todayDate c3) u2) = Some Pm" using p2 by simp
  have e2: "am (day_of u2 d') = am (day_of u d')" for d' by (simp add: u2_def)
  from pending_flow_pm[OF p, of h c3 t co] r e2
  have "pending u3 = None \<and>
          pm (day_of u3 (todayDate c3)) = Some \<lparr>etext = t, timestamp = isoNow c3\<rparr> \<and>
          (\<forall>d'. am (day_of u3 d') = am (day_of u d'))" by simp
  with m2 p2 m3 show "(\<exists>u2. map_of (run h [(c1, CronTick), (c2, CronTick)] (run h ces [])) k = Some u2 \<and>
          pending u2 = Some Pm) \<and>
   (\<exists>u3. map_of (run h [(c1, CronTick), (c2, CronTick), (c3, Msg k fn t co)] (run h ces [])) k
            = Some u3 \<and>
          pending u3 = None \<and>
          pm (day_of u3 (todayDate c3)) = Some \<lparr>etext = t, timestamp = isoNow c3\<rparr> \<and>
          (\<forall>d'. am (day_of u3 d') = am (day_of u d')))" by blast
qed

theorem last_prompt_wins_witness:
  "map_option (\<lambda>u. (onboarded u, am_sent u 1, pm_sent u 1, amTime u, pmTime u, am (day_of u 1)))
     (map_of (run True demo_onboarding []) ''42'') =
       Some (True, False, False, ''07:00'', ''21:00'', None) \<and>
   map_option pending
     (map_of (run True [(at ''07:00'' 1, CronTick), (at ''21:00'' 1, CronTick)]
        (run True demo_onboarding [])) ''42'') = Some (Some Pm) \<and>
   map_option (\<lambda>u. (pending u, pm (day_of u 1), am (day_of u 1)))
     (map_of (run True [(at ''07:00'' 1, CronTick), (at ''21:00'' 1, CronTick),
          (at ''21:30'' 1, Msg ''42'' ''Ada'' ''report'' (Content None))]
        (run True demo_onboarding [])) ''42'') =
       Some (None, Some \<lparr>etext = ''report'', timestamp = ''21:30''\<rparr>, None)"
proof -
  have e: "map_option (\<lambda>u. (onboarded u, am_sent u 1, pm_sent u 1, amTime u, pmTime u, am (day_of u 1)))
     (map_of (run True demo_onboarding []) ''42'') =
       Some (True, False, False, ''07:00'', ''21:00'', None)"
    by code_simp
  then obtain u where u: "map_of (run True demo_onboarding []) ''42'' = Some u"
    "onboarded u" "\<not> am_sent u 1" "\<not> pm_sent u 1" "amTime u = ''07:00''" "pmTime u = ''21:00''"
    "am (day_of u 1) = None" by auto
  have s: "\<not> startsWithSlash ''report''" by (simp add: startsWithSlash_def)
  from last_prompt_wins[of True demo_onboarding "''42''" u 1 "at ''07:00'' 1" "at ''21:00'' 1"
      "''report''" "at ''21:30'' 1" "''Ada''" "Content None"] u s
  have "(\<exists>u2. map_of (run True [(at ''07:00'' 1, CronTick), (at ''21:00'' 1, CronTick)]
            (run True demo_onboarding [])) ''42'' = Some u2 \<and> pending u2 = Some Pm) \<and>
   (\<exists>u3. map_of (run True [(at ''07:00'' 1, CronTick), (at ''21:00'' 1, CronTick),
              (at ''21:30'' 1, Msg ''42'' ''Ada'' ''report'' (Content None))]
            (run True demo_onboarding [])) ''42'' = Some u3 \<and>
          pending u3 = None \<and>
          pm (day_of u3 1) = Some \<lparr>etext = ''report'', timestamp = ''21:30''\<rparr> \<and>
          (\<forall>d'. am (day_of u3 d') = am (day_of u d')))"
    by (simp add: at_def)
  with u(7) e show ?thesis by auto
qed

section \<open>The order of saving and sending\<close>

lemma send_first_not_wtn:
  assumes "map heard es = Some x # r"
  shows "\<not> sends_after_save fin False es"
proof (cases es)
  case Nil
  with assms show ?thesis by simp
next
  case (Cons e es')
  with assms show ?thesis by (cases e) simp_all
qed

lemma sends_after_outs [simp]:
  "sends_after_save fin True (map (case_ueffect (Save s) (Send c) \<circ> Out) outs)"
  by (induction outs) simp_all

lemma with_user_snd:
  "snd (with_user key fn f us) =
     Save (fst (ensureUser key fn us)) #
     map (\<lambda>e. case e of Persist \<Rightarrow> Save (fst (with_user key fn f us))
                        | Out m \<Rightarrow> Send (chatId (fst (f (the_user key fn us)))) m)
       (snd (f (the_user key fn us)))"
proof -
  obtain us1 u e1 where e: "ensureUser key fn us = (us1, u, e1)" by (cases "ensureUser key fn us")
  from e ensureUser_user[of key fn us] have u: "u = the_user key fn us" by simp
  from e ensureUser_effects[of key fn us] have e1: "e1 = [Save us1]" by simp
  have f: "fst (with_user key fn f us) = AList.update key (fst (f (the_user key fn us))) us1"
    using e by (simp add: with_user_fst)
  show ?thesis unfolding f using e
    by (simp add: with_user_def commit_def Let_def u e1)
qed

text \<open>A per-user handler that saves before it sends, or sends without having changed
  more than the existence of today's day object.\<close>

lemma with_user_wtn:
  assumes "(\<exists>outs. snd (f (the_user key fn us)) = Persist # map Out outs) \<or>
           (\<exists>outs. snd (f (the_user key fn us)) = map Out outs \<and>
              (fst (f (the_user key fn us)) = the_user key fn us \<or>
               fst (f (the_user key fn us)) = touch_day d (the_user key fn us)))"
  shows "write_then_notify (with_user key fn f us) \<or>
         only_touched d (fst (ensureUser key fn us)) (fst (with_user key fn f us))"
proof -
  let ?u = "the_user key fn us"
  let ?us1 = "fst (ensureUser key fn us)"
  let ?fin = "fst (with_user key fn f us)"
  have m1: "map_of ?us1 key = Some ?u" by (simp add: map_of_ensureUser)
  from assms consider
    (saved) outs where "snd (f ?u) = Persist # map Out outs"
    | (same) outs where "snd (f ?u) = map Out outs" "fst (f ?u) = ?u"
    | (touched) outs where "snd (f ?u) = map Out outs" "fst (f ?u) = touch_day d ?u"
    by blast
  then show ?thesis
  proof cases
    case saved
    then have "write_then_notify (with_user key fn f us)"
      by (simp add: write_then_notify_def with_user_snd)
    then show ?thesis ..
  next
    case same
    then have "?fin = ?us1" using m1 by (simp add: with_user_fst update_triv)
    with same have "write_then_notify (with_user key fn f us)"
      by (simp add: write_then_notify_def with_user_snd)
    then show ?thesis ..
  next
    case touched
    then have "only_touched d ?us1 ?fin"
      using m1 by (simp add: only_touched_def with_user_fst update_conv')
    then show ?thesis ..
  qed
qed

lemma onboarding_shape:
  "(\<exists>outs. snd (onboarding st v u) = Persist # map Out outs) \<or>
   (\<exists>outs. snd (onboarding st v u) = map Out outs \<and> fst (onboarding st v u) = u)"
proof (cases st)
  case Name
  then show ?thesis by (auto intro: exI[of _ "[STEP2_TIMEZONE]"])
next
  case Timezone
  then show ?thesis by (auto intro: exI[of _ "[STEP3_MISSION]"])
next
  case Habits
  then show ?thesis by (auto intro: exI[of _ "[STEP4_AM_TIME]"])
next
  case AmTime
  then show ?thesis
    by (cases "formatTimeString v")
      (auto intro: exI[of _ "[STEP5_PM_TIME]"] exI[of _ "[INVALID_FORMAT]"])
next
  case PmTime
  show ?thesis
  proof (cases "formatTimeString v")
    case None
    with PmTime show ?thesis by (auto intro: exI[of _ "[INVALID_FORMAT]"])
  next
    case (Some t)
    with PmTime have "snd (onboarding st v u) =
      Persist # map Out [OnboardingComplete (name u) (timezone u) (amTime u) t (goalsText u)]"
      by (simp add: Let_def)
    then show ?thesis by blast
  qed
qed

lemma pending_flow_shape:
  "(\<exists>outs. snd (pending_flow h c t co u) = Persist # map Out outs) \<or>
   (\<exists>outs. snd (pending_flow h c t co u) = map Out outs \<and> fst (pending_flow h c t co u) = u)"
proof (cases "pending u")
  case None
  then have "snd (pending_flow h c t co u) = map Out [CoachText (coachReply h co u t)]"
    "fst (pending_flow h c t co u) = u"
    by (simp_all add: pending_flow_def)
  then show ?thesis by blast
next
  case (Some p)
  show ?thesis
  proof (cases p)
    case Setgoals
    with Some have "snd (pending_flow h c t co u) = Persist # map Out [MissionUpdated (trim t)]"
      by (simp add: pending_flow_def Let_def)
    then show ?thesis by blast
  next
    case Am
    with Some have "snd (pending_flow h c t co u) = Persist # map Out [DAWN_LOGGED]"
      by (simp add: pending_flow_def Let_def)
    then show ?thesis by blast
  next
    case Pm
    with Some have "snd (pending_flow h c t co u) = Persist # map Out [NIGHTLY_LOGGED]"
      by (simp add: pending_flow_def Let_def)
    then show ?thesis by blast
  qed
qed

lemma route_shape:
  "(\<exists>outs. snd (route h c t co u) = Persist # map Out outs) \<or>
   (\<exists>outs. snd (route h c t co u) = map Out outs \<and> fst (route h c t co u) = u)"
  using onboarding_shape[of _ "trim t" u] pending_flow_shape[of h c t co u]
  by (cases "onboardingStep u") (simp_all add: route_def)

lemma start_shape:
  "(\<exists>outs. snd (start_user b u) = Persist # map Out outs) \<or>
   (\<exists>outs. snd (start_user b u) = map Out outs \<and> fst (start_user b u) = u)"
proof (cases "onboarded u")
  case True
  then have "snd (start_user b u) = map Out [StartSummary (js_or (name u) (firstName u))
      (timezone u) (amTime u) (pmTime u) (goalsText u) (daysWithBoth (stats u))
      (totalDays (stats u)) (streakCurrent (stats u)) (streakBest (stats u))]"
    "fst (start_user b u) = u"
    by (simp_all add: start_user_def)
  then show ?thesis by blast
next
  case False
  then have "snd (start_user b u) =
      Persist # map Out (BETA_WELCOME_MESSAGE # (if b then [STEP1_START] else []))"
    by (simp add: start_user_def)
  then show ?thesis by blast
qed

lemma tick_sends_are_sends:
  "list_all is_send (concat (map (\<lambda>(k, u). fst (snd (tick_user cur d u))) us))"
  by (induction us) (auto simp add: tick_user_sends)

lemma tick_changed_iff:
  "list_ex (\<lambda>(k, u). snd (snd (tick_user cur d u))) us =
     (concat (map (\<lambda>(k, u). fst (snd (tick_user cur d u))) us) \<noteq> [])"
  by (induction us) (auto simp add: tick_user_sends tick_user_changed)

lemma tick_effects:
  "\<exists>sends. snd (cron_tick c us) =
             sends @ (if sends = [] then [] else [Save (fst (cron_tick c us))]) \<and>
           list_all is_send sends"
proof -
  let ?sends = "concat (map (\<lambda>(k, u). fst (snd (tick_user (hhmm c) (todayDate c) u))) us)"
  have "snd (cron_tick c us) = ?sends @ (if ?sends = [] then [] else [Save (fst (cron_tick c us))])"
    by (simp add: cron_tick_snd tick_changed_iff)
  with tick_sends_are_sends[of "hhmm c" "todayDate c" us] show ?thesis by blast
qed

lemma test_am_effects:
  assumes "map_of us k = Some u" "onboarded u"
  shows "snd (handle h c (CmdTestAm k fn) us) =
           [Save us, Send (chatId u) AM_PROMPT, Save (fst (handle h c (CmdTestAm k fn) us))]"
    and "snd (handle h c (CmdTestPm k fn) us) =
           [Save us, Send (chatId u) PM_PROMPT, Save (fst (handle h c (CmdTestPm k fn) us))]"
  using assms
  by (simp_all add: with_user_snd the_user_def ensureUser_fst test_am_user_def test_pm_user_def
      Let_def)

lemma with_user_wtn_same:
  assumes "(\<exists>outs. snd (f (the_user key fn us)) = Persist # map Out outs) \<or>
           (\<exists>outs. snd (f (the_user key fn us)) = map Out outs \<and>
              fst (f (the_user key fn us)) = the_user key fn us)"
  shows "write_then_notify (with_user key fn f us)"
proof -
  let ?u = "the_user key fn us"
  have m1: "map_of (fst (ensureUser key fn us)) key = Some ?u" by (simp add: map_of_ensureUser)
  from assms consider
    (saved) outs where "snd (f ?u) = Persist # map Out outs"
    | (same) outs where "snd (f ?u) = map Out outs" "fst (f ?u) = ?u"
    by blast
  then show ?thesis
  proof cases
    case saved
    then show ?thesis by (simp add: write_then_notify_def with_user_snd)
  next
    case same
    then have "fst (with_user key fn f us) = fst (ensureUser key fn us)"
      using m1 by (simp add: with_user_fst update_triv)
    with same show ?thesis by (simp add: write_then_notify_def with_user_snd)
  qed
qed

lemma commands_wtn:
  "write_then_notify (handle h c (CmdStart k fn b) us)"
  "write_then_notify (handle h c (CmdOnboard k fn) us)"
  "write_then_notify (handle h c (CmdSetgoals k fn) us)"
proof -
  show "write_then_notify (handle h c (CmdStart k fn b) us)"
    using start_shape[of b "the_user k fn us"] by (simp add: with_user_wtn_same)
  have "snd (onboard_user (the_user k fn us)) = Persist # map Out [ONBOARDING_RESET]"
    by (simp add: onboard_user_def)
  then have "\<exists>outs. snd (onboard_user (the_user k fn us)) = Persist # map Out outs" ..
  from with_user_wtn_same[of onboard_user k fn us, OF disjI1[OF this]]
  show "write_then_notify (handle h c (CmdOnboard k fn) us)" by simp
  have "snd (setgoals_user (the_user k fn us)) = Persist # map Out [UPDATE_MISSION]"
    by (simp add: setgoals_user_def)
  then have "\<exists>outs. snd (setgoals_user (the_user k fn us)) = Persist # map Out outs" ..
  from with_user_wtn_same[of setgoals_user k fn us, OF disjI1[OF this]]
  show "write_then_notify (handle h c (CmdSetgoals k fn) us)" by simp
qed

lemma message_wtn:
  "write_then_notify (handle h c (Msg k fn t co) us) \<or>
   only_touched (todayDate c) (fst (ensureUser k fn us)) (fst (handle h c (Msg k fn t co) us))"
proof (cases "startsWithSlash t")
  case True
  then show ?thesis by (simp add: on_message_def write_then_notify_def)
next
  case False
  let ?f = "\<lambda>u. route h c t co (touch_day (todayDate c) u)"
  have "(\<exists>outs. snd (?f (the_user k fn us)) = Persist # map Out outs) \<or>
        (\<exists>outs. snd (?f (the_user k fn us)) = map Out outs \<and>
           (fst (?f (the_user k fn us)) = the_user k fn us \<or>
            fst (?f (the_user k fn us)) = touch_day (todayDate c) (the_user k fn us)))"
    using route_shape[of h c t co "touch_day (todayDate c) (the_user k fn us)"] by blast
  from with_user_wtn[of ?f k fn us "todayDate c", OF this] False show ?thesis
    by (simp add: on_message_def)
qed

text \<open>
  C8 (as the specification states it): when a tick or a manual trigger fires a
  prompt, the mutated table is saved before the send is started. For an onboarded user
  at the AM time the tick starts the send first and saves afterwards; \<^verbatim>\<open>/test_am\<close>
  saves the table of \<^verbatim>\<open>ensureUser\<close>, starts the send, and only then saves the table
  with the flag and the pending intent.
\<close>

theorem save_follows_prompt:
  "map heard (snd (cron_tick (at ''07:00'' 1) (run True demo_onboarding []))) =
     [Some (''42'', AM_PROMPT), None] \<and>
   \<not> write_then_notify (cron_tick (at ''07:00'' 1) (run True demo_onboarding [])) \<and>
   map heard (snd (handle True (at ''12:00'' 1) (CmdTestAm ''42'' ''Ada'')
     (run True demo_onboarding []))) = [None, Some (''42'', AM_PROMPT), None] \<and>
   \<not> write_then_notify (handle True (at ''12:00'' 1) (CmdTestAm ''42'' ''Ada'')
     (run True demo_onboarding []))"
proof -
  let ?us = "run True demo_onboarding []"
  let ?r = "handle True (at ''12:00'' 1) (CmdTestAm ''42'' ''Ada'') ?us"
  have a: "map heard (snd (cron_tick (at ''07:00'' 1) ?us)) = [Some (''42'', AM_PROMPT), None]"
    by code_simp
  have b: "\<not> write_then_notify (cron_tick (at ''07:00'' 1) ?us)"
    unfolding write_then_notify_def using a by (rule send_first_not_wtn)
  have c: "map heard (snd ?r) = [None, Some (''42'', AM_PROMPT), None]"
    by code_simp
  have e: "map_option (\<lambda>u. (onboarded u, pending u)) (map_of ?us ''42'') = Some (True, None)"
    by code_simp
  then obtain u where u: "map_of ?us ''42'' = Some u" "onboarded u" "pending u = None" by auto
  have "map_option pending (map_of (fst ?r) ''42'') = Some (Some Am)" by code_simp
  with u have ne: "?us \<noteq> fst ?r" by auto
  from test_am_effects(1)[OF u(1) u(2), of True "at ''12:00'' 1" "''Ada''"] ne
  have d: "\<not> write_then_notify ?r" by (simp add: write_then_notify_def)
  from a b c d show ?thesis by blast
qed

text \<open>
  C8 (amended): the paths that fire a prompt notify first and write afterwards. The
  tick starts all its sends and then, when it has fired anything, saves the resulting
  table once. \<^verbatim>\<open>/test_am\<close> and \<^verbatim>\<open>/test_pm\<close> for an onboarded user save the table
  of \<^verbatim>\<open>ensureUser\<close>, start the send, and then save the resulting table. The other
  handlers that change a user write first: \<^verbatim>\<open>/start\<close>, \<^verbatim>\<open>/onboard\<close> and
  \<^verbatim>\<open>/setgoals\<close> save the resulting table before every send, and so does the message
  router unless it has changed nothing but the existence of today's empty day object.
\<close>

theorem save_and_send_order:
  "(\<exists>sends. snd (cron_tick c us) =
              sends @ (if sends = [] then [] else [Save (fst (cron_tick c us))]) \<and>
            list_all is_send sends) \<and>
   (map_of us k = Some u \<and> onboarded u \<longrightarrow>
      snd (handle h c (CmdTestAm k fn) us) =
        [Save us, Send (chatId u) AM_PROMPT, Save (fst (handle h c (CmdTestAm k fn) us))] \<and>
      snd (handle h c (CmdTestPm k fn) us) =
        [Save us, Send (chatId u) PM_PROMPT, Save (fst (handle h c (CmdTestPm k fn) us))]) \<and>
   write_then_notify (handle h c (CmdStart k fn b) us) \<and>
   write_then_notify (handle h c (CmdOnboard k fn) us) \<and>
   write_then_notify (handle h c (CmdSetgoals k fn) us) \<and>
   (write_then_notify (handle h c (Msg k fn t co) us) \<or>
    only_touched (todayDate c) (fst (ensureUser k fn us)) (fst (handle h c (Msg k fn t co) us)))"
  using tick_effects[of c us] test_am_effects[of us k u h c fn] commands_wtn
    message_wtn[of h c k fn t co us]
  by blast

theorem save_and_send_order_witness:
  "map_option (\<lambda>u. (chatId u, onboarded u)) (map_of (run True demo_onboarding []) ''42'') =
     Some (''42'', True) \<and>
   map heard (snd (handle True (at ''12:00'' 1) (CmdTestAm ''42'' ''Ada'')
     (run True demo_onboarding []))) = [None, Some (''42'', AM_PROMPT), None] \<and>
   map heard (snd (handle True (at ''12:00'' 1) (CmdTestPm ''42'' ''Ada'')
     (run True demo_onboarding []))) = [None, Some (''42'', PM_PROMPT), None]"
proof -
  have e: "map_option (\<lambda>u. (chatId u, onboarded u)) (map_of (run True demo_onboarding []) ''42'') =
     Some (''42'', True)"
    by code_simp
  then obtain u where u: "map_of (run True demo_onboarding []) ''42'' = Some u"
    "chatId u = ''42''" "onboarded u" by auto
  from save_and_send_order[of "at ''12:00'' 1" "run True demo_onboarding []" "''42''" u True "''Ada''"]
    u e show ?thesis by simp
qed

section \<open>The weekly job\<close>

text \<open>
  The loop of the report counts the days of the window \<open>today - 6, \<dots>, today\<close> that
  have a day object, and those among them that have both entries. The job of
  \<^verbatim>\<open>src/bot.js\<close> leaves the table as it is; the job of the older variant stores the
  snapshot of every onboarded user under the key of the window.
\<close>

lemma week_counts_fold:
  "foldl (\<lambda>(tot, full) i.
              case lg (today - int i) of
                None \<Rightarrow> (tot, full)
              | Some day \<Rightarrow>
                  (tot + 1, if am day \<noteq> None \<and> pm day \<noteq> None then full + 1 else full))
       (a, b) xs =
     (a + length (filter (\<lambda>i. lg (today - int i) \<noteq> None) xs),
      b + length (filter (\<lambda>i. case lg (today - int i) of None \<Rightarrow> False
                               | Some day \<Rightarrow> am day \<noteq> None \<and> pm day \<noteq> None) xs))"
  by (induction xs arbitrary: a b) (auto split: option.splits)

lemma week_counts_eq:
  "week_counts lg today =
     (length (filter (\<lambda>i. lg (today - int i) \<noteq> None) [0..<7]),
      length (filter (\<lambda>i. case lg (today - int i) of None \<Rightarrow> False
                          | Some day \<Rightarrow> am day \<noteq> None \<and> pm day \<noteq> None) [0..<7]))"
  unfolding week_counts_def by (subst week_counts_fold) simp

lemma cron_weekly_keeps: "fst (cron_weekly c us) = us"
  by (simp add: cron_weekly_def)

lemma cron_weekly_p1_fst:
  "fst (cron_weekly_p1 c us) = map (\<lambda>(k, u). (k, fst (weekly_user_p1 c u))) us"
  by (simp add: cron_weekly_p1_def Let_def case_prod_unfold comp_def)

lemma cron_weekly_p1_appends:
  assumes "map_of us k = Some u" "onboarded u"
  shows "\<exists>u'. map_of (fst (cron_weekly_p1 c us)) k = Some u' \<and>
           weeklyStats u' (todayDate c - 6, todayDate c) = Some (week_snapshot c u)"
  using assms by (simp add: cron_weekly_p1_fst map_of_map weekly_user_p1_def)

text \<open>
  C7: for every onboarded user the weekly job computes the snapshot of the last seven
  days, delivers its text, and then stores the snapshot in the user's \<open>weeklyStats\<close>.
  For a user with day objects on the days 1, 3, 5 and 7, full on the days 1 and 7, the
  job of \<^verbatim>\<open>src/bot.js\<close> delivers the report (4 days, 2 full, rate 50) and stores
  nothing under the key of the week, whereas the job of the older variant stores the
  snapshot.
\<close>

theorem weekly_snapshot_not_stored:
  "map heard (snd (cron_weekly (at ''18:00'' 7) demo_week)) =
     [Some (''42'', WeeklyReport 7 50 2 4)] \<and>
   map_option (\<lambda>u. weeklyStats u (1, 7)) (map_of (fst (cron_weekly (at ''18:00'' 7) demo_week)) ''42'')
     = Some None \<and>
   map_option (\<lambda>u. weeklyStats u (1, 7))
     (map_of (fst (cron_weekly_p1 (at ''18:00'' 7) demo_week)) ''42'')
     = Some (Some \<lparr>startDate = 1, endDate = 7, habitExecutionRate = 50, completedDays = 2,
          snapTotalDays = 4, generatedAt = ''18:00''\<rparr>)"
  by code_simp

section \<open>Onboarding and pending intents together\<close>








end
